theory Spec2Isabelle
  imports Complex_Main
begin

section \<open>Values of the program\<close>

text \<open>
  The exceptions the modelled code can raise. \<open>IOError\<close> stands for whatever the WAV
  decoder raises on an unreadable file.
\<close>

datatype error = ValueError | IndexError | ZeroDivisionError | NameError | AssertionError | IOError

text \<open>
  A NumPy \<open>float64\<close>. Finite values are idealised as reals (no rounding, no overflow, no
  signed zero); the two infinities and NaN are kept, because the code reaches them by
  dividing by zero and by taking logarithms, and NumPy does not raise there.
\<close>

datatype npfloat = Fin real | PInf | NInf | NaN

fun np_add :: "npfloat \<Rightarrow> npfloat \<Rightarrow> npfloat" where
  "np_add NaN _ = NaN"
| "np_add _ NaN = NaN"
| "np_add (Fin a) (Fin b) = Fin (a + b)"
| "np_add PInf NInf = NaN"
| "np_add NInf PInf = NaN"
| "np_add PInf _ = PInf"
| "np_add _ PInf = PInf"
| "np_add NInf _ = NInf"
| "np_add _ NInf = NInf"

fun np_neg :: "npfloat \<Rightarrow> npfloat" where
  "np_neg (Fin a) = Fin (- a)"
| "np_neg PInf = NInf"
| "np_neg NInf = PInf"
| "np_neg NaN = NaN"

fun np_sub :: "npfloat \<Rightarrow> npfloat \<Rightarrow> npfloat" where
  "np_sub (Fin a) (Fin b) = Fin (a - b)"
| "np_sub x y = np_add x (np_neg y)"

fun np_div :: "npfloat \<Rightarrow> npfloat \<Rightarrow> npfloat" where
  "np_div NaN _ = NaN"
| "np_div _ NaN = NaN"
| "np_div (Fin a) (Fin b) =
     (if b \<noteq> 0 then Fin (a / b)
      else if 0 < a then PInf else if a < 0 then NInf else NaN)"
| "np_div (Fin a) _ = Fin 0"
| "np_div PInf (Fin b) = (if 0 \<le> b then PInf else NInf)"
| "np_div NInf (Fin b) = (if 0 \<le> b then NInf else PInf)"
| "np_div _ _ = NaN"

fun np_log :: "npfloat \<Rightarrow> npfloat" where
  "np_log (Fin a) = (if a < 0 then NaN else if a = 0 then NInf else Fin (ln a))"
| "np_log PInf = PInf"
| "np_log NInf = NaN"
| "np_log NaN = NaN"

text \<open>Comparisons: every comparison with NaN is false.\<close>

fun np_lt :: "npfloat \<Rightarrow> npfloat \<Rightarrow> bool" where
  "np_lt (Fin a) (Fin b) = (a < b)"
| "np_lt NInf (Fin _) = True"
| "np_lt NInf PInf = True"
| "np_lt (Fin _) PInf = True"
| "np_lt _ _ = False"

definition np_eq :: "npfloat \<Rightarrow> npfloat \<Rightarrow> bool" where
  "np_eq x y = (x \<noteq> NaN \<and> x = y)"

definition np_ge :: "npfloat \<Rightarrow> npfloat \<Rightarrow> bool" where
  "np_ge x y = (np_lt y x \<or> np_eq x y)"

section \<open>Arrays\<close>

text \<open>
  A two-dimensional NumPy array: its rows, and its second dimension kept beside them so
  that an array with no rows still has a column count. \<open>wf_ndarray\<close> says that every
  row has that many entries.
\<close>

datatype 'a ndarray = NDArray (shape1: nat) (rows: "'a list list")

definition shape0 :: "'a ndarray \<Rightarrow> nat" where
  "shape0 a = length (rows a)"

definition wf_ndarray :: "'a ndarray \<Rightarrow> bool" where
  "wf_ndarray a = list_all (\<lambda>r. length r = shape1 a) (rows a)"

text \<open>Two arrays of the same dimensions, row by row.\<close>

definition same_shape :: "'a ndarray \<Rightarrow> 'b ndarray \<Rightarrow> bool" where
  "same_shape a b \<longleftrightarrow> shape1 a = shape1 b \<and> map length (rows a) = map length (rows b)"

definition flat :: "'a ndarray \<Rightarrow> 'a list" where
  "flat a = concat (rows a)"

definition map_nd :: "('a \<Rightarrow> 'b) \<Rightarrow> 'a ndarray \<Rightarrow> 'b ndarray" where
  "map_nd f a = NDArray (shape1 a) (map (map f) (rows a))"

definition get_column :: "'a ndarray \<Rightarrow> nat \<Rightarrow> 'a list" where
  "get_column a j = map (\<lambda>r. r ! j) (rows a)"

text \<open>
  \<open>np.amin\<close> and \<open>np.amax\<close> over the whole array: NaN wins over every value, and an
  array without entries has no minimum (NumPy raises ValueError).
\<close>

fun np_minimum :: "npfloat \<Rightarrow> npfloat \<Rightarrow> npfloat" where
  "np_minimum NaN _ = NaN"
| "np_minimum _ NaN = NaN"
| "np_minimum x y = (if np_lt y x then y else x)"

fun np_maximum :: "npfloat \<Rightarrow> npfloat \<Rightarrow> npfloat" where
  "np_maximum NaN _ = NaN"
| "np_maximum _ NaN = NaN"
| "np_maximum x y = (if np_lt x y then y else x)"

definition np_amin :: "npfloat ndarray \<Rightarrow> error + npfloat" where
  "np_amin a = (case flat a of [] \<Rightarrow> Inl ValueError | x # xs \<Rightarrow> Inr (foldl np_minimum x xs))"

definition np_amax :: "npfloat ndarray \<Rightarrow> error + npfloat" where
  "np_amax a = (case flat a of [] \<Rightarrow> Inl ValueError | x # xs \<Rightarrow> Inr (foldl np_maximum x xs))"

text \<open>\<open>a[mask] = v\<close> with the mask computed from \<open>a\<close> entry by entry.\<close>

definition mask_assign :: "(npfloat \<Rightarrow> bool) \<Rightarrow> npfloat \<Rightarrow> npfloat ndarray \<Rightarrow> npfloat ndarray" where
  "mask_assign cond v a = map_nd (\<lambda>x. if cond x then v else x) a"

text \<open>
  Python's \<open>xs[start:stop]\<close>: a negative bound counts from the end, and both bounds are
  clipped to the sequence; the slice is empty when the bounds cross.
\<close>

definition py_slice :: "'a list \<Rightarrow> int \<Rightarrow> int \<Rightarrow> 'a list" where
  "py_slice xs start stop =
     (let n = int (length xs);
          clip = (\<lambda>k. if k < 0 then max 0 (k + n) else min k n);
          lo = nat (clip start);
          hi = nat (clip stop)
      in take (hi - lo) (drop lo xs))"

definition np_sum :: "npfloat list \<Rightarrow> npfloat" where
  "np_sum xs = foldl np_add (Fin 0) xs"

text \<open>
  \<open>np.average(a, axis=0)\<close>: the mean of every column, one value per column. Without
  weights NumPy also divides the size of the array by the size of the result, two Python
  integers, so that an array without columns raises ZeroDivisionError.
\<close>

definition column_means :: "npfloat ndarray \<Rightarrow> npfloat list" where
  "column_means a =
     map (\<lambda>j. np_div (np_sum (get_column a j)) (Fin (real (shape0 a)))) [0..<shape1 a]"

definition np_average_axis0 :: "npfloat ndarray \<Rightarrow> error + npfloat list" where
  "np_average_axis0 a = (if shape1 a = 0 then Inl ZeroDivisionError else Inr (column_means a))"

section \<open>Normalisation and zooming\<close>

text \<open>
  \<open>normalization_and_zooming\<close>, line by line. Lines 87 and 88 replace the exact zeros by 1
  and take the logarithm; line 90 sets the zero logarithms to the minimum; lines 91 and 92
  shift the minimum to 0 and divide by the maximum; lines 94 to 96 raise what is below
  0.25 to 0.25, subtract 0.25 and divide by the maximum again.
\<close>

definition log_stage :: "npfloat ndarray \<Rightarrow> npfloat ndarray" where
  "log_stage bins = map_nd np_log (mask_assign (\<lambda>x. np_eq x (Fin 0)) (Fin 1) bins)"

definition clamp_stage :: "npfloat ndarray \<Rightarrow> error + npfloat ndarray" where
  "clamp_stage bins =
     (case np_amin bins of
        Inl e \<Rightarrow> Inl e
      | Inr m \<Rightarrow> Inr (mask_assign (\<lambda>x. np_eq x (Fin 0)) m bins))"

definition normalize_stage :: "npfloat ndarray \<Rightarrow> error + npfloat ndarray" where
  "normalize_stage bins =
     (case np_amin bins of
        Inl e \<Rightarrow> Inl e
      | Inr m \<Rightarrow>
          (let shifted = map_nd (\<lambda>x. np_sub x m) bins
           in case np_amax shifted of
                Inl e \<Rightarrow> Inl e
              | Inr M \<Rightarrow> Inr (map_nd (\<lambda>x. np_div x M) shifted)))"

definition zoom_stage :: "npfloat ndarray \<Rightarrow> error + npfloat ndarray" where
  "zoom_stage bins =
     (let clipped = mask_assign (\<lambda>x. np_lt x (Fin (1 / 4))) (Fin (1 / 4)) bins;
          shifted = map_nd (\<lambda>x. np_sub x (Fin (1 / 4))) clipped
      in case np_amax shifted of
           Inl e \<Rightarrow> Inl e
         | Inr M \<Rightarrow> Inr (map_nd (\<lambda>x. np_div x M) shifted))"

definition normalization_and_zooming :: "npfloat ndarray \<Rightarrow> error + npfloat ndarray" where
  "normalization_and_zooming bins =
     (case clamp_stage (log_stage bins) of
        Inl e \<Rightarrow> Inl e
      | Inr clamped \<Rightarrow>
          (case normalize_stage clamped of
             Inl e \<Rightarrow> Inl e
           | Inr normalized \<Rightarrow> zoom_stage normalized))"

section \<open>The emphasis detector\<close>

text \<open>
  The module-level variables that the script binds at line 240. \<open>None\<close> is a name that
  is not bound (the module was imported, or the script has not reached that line).
\<close>

record globals =
  g_bins0 :: "npfloat ndarray option"
  g_bins1 :: "npfloat ndarray option"

text \<open>
  The body of the loop of \<open>find_points\<close>, lines 110 to 115: the window, the count of its
  values that are at least the value at \<open>i\<close>, and the quotient of two Python integers
  (which raises when the divisor is zero).
\<close>

definition neighbors_at :: "npfloat list \<Rightarrow> int \<Rightarrow> nat \<Rightarrow> npfloat list" where
  "neighbors_at test1 horizon i =
     py_slice test1 (max 0 (int i - horizon)) (min (int (length test1)) (int i + horizon + 1))"

fun num_geq_loop :: "npfloat list \<Rightarrow> npfloat \<Rightarrow> int \<Rightarrow> int" where
  "num_geq_loop [] x num_geq = num_geq"
| "num_geq_loop (neighbor # rest) x num_geq =
     num_geq_loop rest x (if np_ge neighbor x then num_geq + 1 else num_geq)"

definition result_at :: "npfloat list \<Rightarrow> int \<Rightarrow> nat \<Rightarrow> error + real" where
  "result_at test1 horizon i =
     (let neighbors = neighbors_at test1 horizon i;
          num_geq = num_geq_loop neighbors (test1 ! i) 0
      in if int (length neighbors) - 1 = 0 then Inl ZeroDivisionError
         else Inr (real_of_int (num_geq - 1) / real_of_int (int (length neighbors) - 1)))"

fun find_points_loop :: "npfloat list \<Rightarrow> real \<Rightarrow> int \<Rightarrow> nat list \<Rightarrow> nat list \<Rightarrow> error + nat list" where
  "find_points_loop test1 threshold horizon [] keep = Inr keep"
| "find_points_loop test1 threshold horizon (i # rest) keep =
     (case result_at test1 horizon i of
        Inl e \<Rightarrow> Inl e
      | Inr result \<Rightarrow>
          find_points_loop test1 threshold horizon rest
            (if threshold \<le> result then keep @ [i] else keep))"

text \<open>
  \<open>find_points(threshold, horizon)\<close> reads the module-level \<open>bins0\<close>; the average and the
  comparison are idealised on reals, as the finite values are.
\<close>

definition find_points :: "globals \<Rightarrow> real \<Rightarrow> int \<Rightarrow> error + nat list" where
  "find_points g threshold horizon =
     (case g_bins0 g of
        None \<Rightarrow> Inl NameError
      | Some b \<Rightarrow>
          (case np_average_axis0 b of
             Inl e \<Rightarrow> Inl e
           | Inr test1 \<Rightarrow> find_points_loop test1 threshold horizon [0..<length test1] []))"

text \<open>
  The frames within \<open>horizon\<close> of frame \<open>i\<close>, among \<open>n\<close> frames: for a horizon that is
  not negative, the slice of line 110 holds exactly the values at these indices.
\<close>

definition window :: "nat \<Rightarrow> int \<Rightarrow> nat \<Rightarrow> nat set" where
  "window n horizon i = set (filter (\<lambda>j. \<bar>int j - int i\<bar> \<le> horizon) [0..<n])"

text \<open>
  The fraction as the specification words it, for comparison with \<open>result_at\<close>: among the
  values of the window, self included, the share that is at least the value at \<open>i\<close>.
\<close>

definition claimed_fraction :: "npfloat list \<Rightarrow> int \<Rightarrow> nat \<Rightarrow> real" where
  "claimed_fraction test1 horizon i =
     real (length (filter (\<lambda>neighbor. np_ge neighbor (test1 ! i)) (neighbors_at test1 horizon i)))
       / real (length (neighbors_at test1 horizon i))"

section \<open>The balance point\<close>

text \<open>
  \<^verbatim>\<open>def ratio(a, b): return b / (a + b)\<close>, on the NumPy \<open>float64\<close> scalars that
  \<open>circle_mode\<close> passes. Here the rounding of the two operations is part of the model,
  since an exact identity between two results depends on it. \<open>f64_round\<close> is IEEE 754
  rounding to binary64, to nearest with ties to even: a real \<open>x\<close> with
  \<open>2^k \<le> |x| < 2^(k+1)\<close> is rounded to a multiple of \<open>2^(k-52)\<close>, or of \<open>2^(-1074)\<close> in
  the subnormal range, and a rounded magnitude of \<open>2^1024\<close> or more overflows to an
  infinity. The sign of zero is not modelled. \<open>is_f64\<close> says that a real is a binary64
  value.
\<close>

definition round_half_even :: "real \<Rightarrow> int" where
  "round_half_even y =
     (let n = \<lfloor>y\<rfloor>; r = y - of_int n
      in if r < 1 / 2 then n else if 1 / 2 < r then n + 1 else if even n then n else n + 1)"

definition f64_quantum :: "real \<Rightarrow> real" where
  "f64_quantum x = 2 powi (max (\<lfloor>log 2 \<bar>x\<bar>\<rfloor> - 52) (- 1074))"

definition f64_round :: "real \<Rightarrow> npfloat" where
  "f64_round x =
     (if x = 0 then Fin 0
      else (let q = f64_quantum x;
                y = of_int (round_half_even (x / q)) * q
            in if 2 ^ 1024 \<le> \<bar>y\<bar> then (if 0 < x then PInf else NInf) else Fin y))"

definition is_f64 :: "real \<Rightarrow> bool" where
  "is_f64 x \<longleftrightarrow> f64_round x = Fin x"

fun f64_add :: "npfloat \<Rightarrow> npfloat \<Rightarrow> npfloat" where
  "f64_add (Fin a) (Fin b) = f64_round (a + b)"
| "f64_add x y = np_add x y"

fun f64_div :: "npfloat \<Rightarrow> npfloat \<Rightarrow> npfloat" where
  "f64_div (Fin a) (Fin b) = (if b \<noteq> 0 then f64_round (a / b) else np_div (Fin a) (Fin b))"
| "f64_div x y = np_div x y"

definition ratio :: "npfloat \<Rightarrow> npfloat \<Rightarrow> npfloat" where
  "ratio a b = f64_div b (f64_add a b)"

section \<open>The spectral binner\<close>

text \<open>
  An entry of the complex spectrogram, or of an average over it: NumPy's mean of an empty
  slice is NaN, not an exception.
\<close>

datatype npcomplex = CFin complex | CNaN

fun np_abs :: "npcomplex \<Rightarrow> npfloat" where
  "np_abs (CFin z) = Fin (cmod z)"
| "np_abs CNaN = NaN"

text \<open>
  \<open>np.average(Zxx[bin_start:bin_end, column_no])\<close>: the rows of the slice, read at one
  column. A column beyond the array raises IndexError.
\<close>

definition get_bin_average :: "nat \<Rightarrow> int \<Rightarrow> int \<Rightarrow> complex ndarray \<Rightarrow> error + npcomplex" where
  "get_bin_average column_no bin_start bin_end Zxx =
     (if shape1 Zxx \<le> column_no then Inl IndexError
      else (let band = map (\<lambda>r. r ! column_no) (py_slice (rows Zxx) bin_start bin_end)
            in Inr (if band = [] then CNaN
                    else CFin (sum_list band / of_nat (length band)))))"

definition np_zeros :: "nat \<Rightarrow> nat \<Rightarrow> npfloat ndarray" where
  "np_zeros n m = NDArray m (replicate n (replicate m (Fin 0)))"

text \<open>\<open>a[i, j] = v\<close>, which raises IndexError outside the array.\<close>

definition set_item :: "'a ndarray \<Rightarrow> nat \<Rightarrow> nat \<Rightarrow> 'a \<Rightarrow> error + 'a ndarray" where
  "set_item a i j v =
     (if i < shape0 a \<and> j < shape1 a
      then Inr (NDArray (shape1 a) ((rows a)[i := (rows a ! i)[j := v]]))
      else Inl IndexError)"

text \<open>\<open>a[i, j]\<close>, likewise.\<close>

definition item :: "'a ndarray \<Rightarrow> nat \<Rightarrow> nat \<Rightarrow> error + 'a" where
  "item a i j =
     (if i < shape0 a \<and> j < shape1 a then Inr (rows a ! i ! j) else Inl IndexError)"

text \<open>
  The two nested loops of lines 50 to 52 (and 65 to 67): for every column, for every band
  \<open>i\<close>, the magnitude of the average over the rows from \<open>bin_boundaries[i]\<close> up to
  \<open>bin_boundaries[i + 1]\<close>.
\<close>

fun band_loop :: "complex ndarray \<Rightarrow> int list \<Rightarrow> nat \<Rightarrow> nat list \<Rightarrow> npfloat ndarray \<Rightarrow> error + npfloat ndarray" where
  "band_loop Zxx bin_boundaries column [] bins = Inr bins"
| "band_loop Zxx bin_boundaries column (i # rest) bins =
     (case get_bin_average column (bin_boundaries ! i) (bin_boundaries ! (i + 1)) Zxx of
        Inl e \<Rightarrow> Inl e
      | Inr average \<Rightarrow>
          (case set_item bins i column (np_abs average) of
             Inl e \<Rightarrow> Inl e
           | Inr bins' \<Rightarrow> band_loop Zxx bin_boundaries column rest bins'))"

fun column_loop :: "complex ndarray \<Rightarrow> int list \<Rightarrow> nat list \<Rightarrow> npfloat ndarray \<Rightarrow> error + npfloat ndarray" where
  "column_loop Zxx bin_boundaries [] bins = Inr bins"
| "column_loop Zxx bin_boundaries (column # rest) bins =
     (case band_loop Zxx bin_boundaries column [0..<shape0 bins] bins of
        Inl e \<Rightarrow> Inl e
      | Inr bins' \<Rightarrow> column_loop Zxx bin_boundaries rest bins')"

text \<open>
  Lines 44 to 54, which lines 59 to 69 repeat on the second channel: a column of zeros is
  appended to the spectrogram, its rows are reversed, the bins are filled and normalised.
  \<open>np.zeros\<close> raises ValueError on the negative row count of an empty boundary list.
\<close>

definition channel_bins :: "complex ndarray \<Rightarrow> int list \<Rightarrow> error + npfloat ndarray" where
  "channel_bins stft_out bin_boundaries =
     (let padded = NDArray (shape1 stft_out + 1) (map (\<lambda>r. r @ [0]) (rows stft_out));
          Zxx = NDArray (shape1 padded) (rev (rows padded))
      in if length bin_boundaries = 0 then Inl ValueError
         else (case column_loop Zxx bin_boundaries [0..<shape1 Zxx]
                      (np_zeros (length bin_boundaries - 1) (shape1 Zxx)) of
                 Inl e \<Rightarrow> Inl e
               | Inr bins \<Rightarrow> normalization_and_zooming bins))"

text \<open>
  What \<open>scipy.io.wavfile.read\<close> returns as data: a one-dimensional array for a file with
  one channel, otherwise samples by channels. \<open>data[:, k]\<close> raises IndexError on the
  former, and on a channel the latter does not have.
\<close>

datatype 's wavdata = Samples1D "'s list" | Samples2D "'s ndarray"

fun channel :: "'s wavdata \<Rightarrow> nat \<Rightarrow> error + 's list" where
  "channel (Samples1D _) k = Inl IndexError"
| "channel (Samples2D a) k = (if k < shape1 a then Inr (get_column a k) else Inl IndexError)"

text \<open>What \<open>wav_to_bins\<close> returns: the pair of line 72 or the single array of line 74.\<close>

datatype bins_result = Both "npfloat ndarray" "npfloat ndarray" | Single "npfloat ndarray"

text \<open>
  \<open>wav_to_bins(filename, mono, bin_boundaries)\<close>. The WAV decoder and the short-time
  Fourier transform are libraries outside the repository: they are the parameters
  \<open>wavfile_read\<close> and \<open>stft\<close> (with the fixed window and overlap of lines 42 and 57), and
  either may fail. \<open>mono_flag\<close> is the integer the script passes as \<open>mono\<close>;
  \<open>mono == False\<close> holds for 0 only.
\<close>

definition wav_to_bins ::
  "(string \<Rightarrow> error + nat \<times> 's wavdata) \<Rightarrow> ('s list \<Rightarrow> nat \<Rightarrow> error + complex ndarray)
   \<Rightarrow> string \<Rightarrow> int \<Rightarrow> int list \<Rightarrow> error + bins_result" where
  "wav_to_bins wavfile_read stft filename mono_flag bin_boundaries =
     (case wavfile_read filename of
        Inl e \<Rightarrow> Inl e
      | Inr (rate, data) \<Rightarrow>
     (case channel data 0 of
        Inl e \<Rightarrow> Inl e
      | Inr samples0 \<Rightarrow>
     (case stft samples0 rate of
        Inl e \<Rightarrow> Inl e
      | Inr Zxx0 \<Rightarrow>
     (case channel_bins Zxx0 bin_boundaries of
        Inl e \<Rightarrow> Inl e
      | Inr bins0 \<Rightarrow>
     (if mono_flag = 0 then
        (case channel data 1 of
           Inl e \<Rightarrow> Inl e
         | Inr samples1 \<Rightarrow>
        (case stft samples1 rate of
           Inl e \<Rightarrow> Inl e
         | Inr Zxx1 \<Rightarrow>
        (case channel_bins Zxx1 bin_boundaries of
           Inl e \<Rightarrow> Inl e
         | Inr bins1 \<Rightarrow> Inr (Both bins0 bins1))))
      else Inr (Single bins0))))))"

section \<open>The circle renderer\<close>

text \<open>
  What \<open>circle_mode\<close> hands to the plotting library for one frame: the face colour of the
  background rectangle, and the circles, one per band. Drawing and encoding are outside the
  repository; the frames snapped by the camera are the result.
\<close>

type_synonym rgb = "real \<times> real \<times> real"

record circle =
  center_x :: npfloat
  center_y :: npfloat
  radius :: npfloat
  edge_color :: string
  line_width :: int

record frame =
  background :: rgb
  rings :: "circle list"

definition colors :: "string list" where
  "colors = [''magenta'', ''yellow'', ''cyan'', ''red'', ''green'', ''blue'']"

text \<open>Line 180: every component of the colour times 0.9.\<close>

fun decay :: "rgb \<Rightarrow> rgb" where
  "decay (r, g, b) = (r * (9 / 10), g * (9 / 10), b * (9 / 10))"

text \<open>
  Lines 182 to 190, the circles of frame \<open>i\<close>: centred and of radius \<open>bins0[j, i] / 2\<close>
  when \<open>bins1\<close> is \<open>None\<close>, otherwise placed at the balance point with radius
  \<open>(bins0[j, i] + bins1[j, i]) / 4\<close>.
\<close>

fun circles_loop :: "npfloat ndarray \<Rightarrow> npfloat ndarray option \<Rightarrow> int \<Rightarrow> nat \<Rightarrow> nat list \<Rightarrow> circle list \<Rightarrow> error + circle list" where
  "circles_loop bins0 bins1 circle_width i [] circles = Inr circles"
| "circles_loop bins0 bins1 circle_width i (j # rest) circles =
     (case item bins0 j i of
        Inl e \<Rightarrow> Inl e
      | Inr a \<Rightarrow>
          (case bins1 of
             None \<Rightarrow>
               circles_loop bins0 bins1 circle_width i rest
                 (circles @ [\<lparr>center_x = Fin (1 / 2), center_y = Fin (1 / 2),
                              radius = np_div a (Fin 2),
                              edge_color = colors ! (j mod length colors),
                              line_width = circle_width\<rparr>])
           | Some right \<Rightarrow>
               (case item right j i of
                  Inl e \<Rightarrow> Inl e
                | Inr b \<Rightarrow>
                    circles_loop bins0 bins1 circle_width i rest
                      (circles @ [\<lparr>center_x = ratio a b, center_y = Fin (1 / 2),
                                   radius = np_div (np_add a b) (Fin 4),
                                   edge_color = colors ! (j mod length colors),
                                   line_width = circle_width\<rparr>]))))"

text \<open>
  The loop over the frames, lines 175 to 198. \<open>rnd\<close> is the sequence of values that the
  successive calls of \<open>random.random()\<close> return, and \<open>k\<close> the number of calls made so far;
  \<open>color_changing == True\<close> holds for the integer 1.
\<close>

fun frame_loop ::
  "(nat \<Rightarrow> real) \<Rightarrow> npfloat ndarray \<Rightarrow> npfloat ndarray option \<Rightarrow> int \<Rightarrow> nat list \<Rightarrow> int
   \<Rightarrow> nat list \<Rightarrow> rgb \<Rightarrow> nat \<Rightarrow> frame list \<Rightarrow> error + frame list" where
  "frame_loop rnd bins0 bins1 color_changing points circle_width [] color k frames = Inr frames"
| "frame_loop rnd bins0 bins1 color_changing points circle_width (i # rest) color k frames =
     (let (color', k') =
            (if color_changing = 1
             then (if i \<in> set points then ((rnd k, rnd (k + 1), rnd (k + 2)), k + 3)
                   else (decay color, k))
             else (color, k))
      in case circles_loop bins0 bins1 circle_width i [0..<shape0 bins0] [] of
           Inl e \<Rightarrow> Inl e
         | Inr circles \<Rightarrow>
             frame_loop rnd bins0 bins1 color_changing points circle_width rest color' k'
               (frames @ [\<lparr>background = color', rings = circles\<rparr>]))"

text \<open>
  \<open>circle_mode(bins0, bins1, save_name, color_changing, circle_width)\<close>. The emphasis
  points are computed from the module-level \<open>bins0\<close>, not from the parameter; without
  colour changing \<open>points\<close> stays unbound and is never read (the empty list stands for
  it). An exception leaves no video: the frames are saved only after the loop.
\<close>

definition circle_mode ::
  "globals \<Rightarrow> (nat \<Rightarrow> real) \<Rightarrow> npfloat ndarray \<Rightarrow> npfloat ndarray option \<Rightarrow> string \<Rightarrow> int \<Rightarrow> int
   \<Rightarrow> error + frame list" where
  "circle_mode g rnd bins0 bins1 save_name color_changing circle_width =
     (case (if color_changing = 1 then find_points g (27 / 30) 7 else Inr []) of
        Inl e \<Rightarrow> Inl e
      | Inr points \<Rightarrow>
          frame_loop rnd bins0 bins1 color_changing points circle_width
            [0..<shape1 bins0] (1, 1, 1) 0 [])"

section \<open>The script\<close>

text \<open>Python's \<open>s[-4:]\<close>: the last four characters, or all of a shorter string.\<close>

definition last4 :: "string \<Rightarrow> string" where
  "last4 s = drop (length s - 4) s"

text \<open>
  The unpacking \<open>bins0, bins1 = ...\<close> of line 240. A tuple gives its two arrays. An array
  is iterated along its first axis: it must have exactly two rows, which then are
  one-dimensional arrays; any other row count raises ValueError.
\<close>

datatype unpacked = Arrays2D "npfloat ndarray" "npfloat ndarray" | Rows1D "npfloat list" "npfloat list"

fun unpack_pair :: "bins_result \<Rightarrow> error + unpacked" where
  "unpack_pair (Both a b) = Inr (Arrays2D a b)"
| "unpack_pair (Single a) =
     (if shape0 a = 2 then Inr (Rows1D (rows a ! 0) (rows a ! 1)) else Inl ValueError)"

text \<open>
  The script, lines 224 to 241, up to the frames that \<open>circle_mode\<close> renders (the muxing
  of line 242 is an external tool). \<open>py_int\<close> is Python's \<open>int\<close> on the optional seventh
  argument; on the flags, which are \<open>'0'\<close> or \<open>'1'\<close> by then, it is 0 or 1. With two
  one-dimensional arrays \<open>circle_mode\<close> raises IndexError before the first frame, at
  \<open>test1.shape[0]\<close> or at \<open>bins0.shape[1]\<close>.
\<close>

definition main ::
  "(string \<Rightarrow> error + nat \<times> 's wavdata) \<Rightarrow> ('s list \<Rightarrow> nat \<Rightarrow> error + complex ndarray)
   \<Rightarrow> (string \<Rightarrow> error + int) \<Rightarrow> (nat \<Rightarrow> real) \<Rightarrow> string list \<Rightarrow> error + frame list" where
  "main wavfile_read stft py_int rnd args =
     (if \<not> (length args = 6 \<or> length args = 7) then Inl AssertionError
      else if last4 (args ! 1) \<noteq> ''.wav'' then Inl AssertionError
      else if args ! 2 \<notin> set [''0'', ''1''] then Inl AssertionError
      else if last4 (args ! 3) \<noteq> ''.mp4'' then Inl AssertionError
      else if last4 (args ! 4) \<noteq> ''.mp4'' then Inl AssertionError
      else if args ! 5 \<notin> set [''0'', ''1''] then Inl AssertionError
      else
        (let input_audio_filename = args ! 1;
             mono_flag = (if args ! 2 = ''1'' then 1 else 0);
             no_sound_video_output_filename = args ! 3;
             color_changing = (if args ! 5 = ''1'' then 1 else 0)
         in case (if length args = 6 then Inr 15 else py_int (args ! 6)) of
              Inl e \<Rightarrow> Inl e
            | Inr circle_width \<Rightarrow>
         (case wav_to_bins wavfile_read stft input_audio_filename mono_flag [4, 37, 93, 371] of
            Inl e \<Rightarrow> Inl e
          | Inr result \<Rightarrow>
         (case unpack_pair result of
            Inl e \<Rightarrow> Inl e
          | Inr (Rows1D _ _) \<Rightarrow> Inl IndexError
          | Inr (Arrays2D bins0 bins1) \<Rightarrow>
              circle_mode \<lparr>g_bins0 = Some bins0, g_bins1 = Some bins1\<rparr> rnd bins0 (Some bins1)
                no_sound_video_output_filename color_changing circle_width))))"

section \<open>Concrete inputs\<close>

text \<open>
  Small inputs on which the theorems below are instantiated: rising curves of one band,
  module states, a stereo file of one sample whose transform has two rows and one frame,
  a sequence of random draws, and a command line with the mono flag set.
\<close>

abbreviation ramp2 :: "npfloat ndarray" where
  "ramp2 \<equiv> NDArray 2 [[Fin 1, Fin 2]]"

abbreviation ramp3 :: "npfloat ndarray" where
  "ramp3 \<equiv> NDArray 3 [[Fin 1, Fin 2, Fin 3]]"

abbreviation dip4 :: "npfloat ndarray" where
  "dip4 \<equiv> NDArray 4 [[Fin 2, Fin 1, Fin 3, Fin 4]]"

abbreviation module_with :: "npfloat ndarray \<Rightarrow> globals" where
  "module_with b \<equiv> \<lparr>g_bins0 = Some b, g_bins1 = None\<rparr>"

abbreviation empty_module :: globals where
  "empty_module \<equiv> \<lparr>g_bins0 = None, g_bins1 = None\<rparr>"

abbreviation one_frame :: "npfloat ndarray" where
  "one_frame \<equiv> NDArray 1 [[Fin 1]]"

abbreviation two_frames :: "npfloat ndarray" where
  "two_frames \<equiv> NDArray 2 [[Fin 1, Fin 1]]"

abbreviation stereo_sample :: "int wavdata" where
  "stereo_sample \<equiv> Samples2D (NDArray 2 [[0, 0]])"

abbreviation stereo_file :: "string \<Rightarrow> error + nat \<times> int wavdata" where
  "stereo_file \<equiv> (\<lambda>_. Inr (44100, stereo_sample))"

abbreviation small_stft :: "int list \<Rightarrow> nat \<Rightarrow> error + complex ndarray" where
  "small_stft \<equiv> (\<lambda>_ _. Inr (NDArray 1 [[1], [2]]))"

abbreviation draws :: "nat \<Rightarrow> real" where
  "draws \<equiv> (\<lambda>n. 1 / (real n + 2))"

abbreviation mono_args :: "string list" where
  "mono_args \<equiv> [''audio_visualization.py'', ''a.wav'', ''1'', ''s.mp4'', ''f.mp4'', ''0'']"

text \<open>The binary64 values that Python writes \<open>0.1\<close> and \<open>0.3\<close>.\<close>

abbreviation tenth :: real where
  "tenth \<equiv> 3602879701896397 / 2 ^ 55"

abbreviation three_tenths :: real where
  "three_tenths \<equiv> 5404319552844595 / 2 ^ 54"

section \<open>The stages of normalisation on finite magnitudes\<close>

lemma flat_map_nd: "flat (map_nd f a) = map f (flat a)"
  by (simp add: flat_def map_nd_def map_concat)

lemma map_nd_map_nd: "map_nd f (map_nd g a) = map_nd (\<lambda>x. f (g x)) a"
  by (simp add: map_nd_def o_def)

lemma map_nd_cong_flat:
  assumes "\<And>x. x \<in> set (flat a) \<Longrightarrow> f x = g x"
  shows "map_nd f a = map_nd g a"
  using assms by (auto simp: map_nd_def flat_def)

lemma foldl_np_minimum_Fin:
  "foldl np_minimum (Fin a) (map Fin xs) = Fin (Min (insert a (set xs)))"
proof (induction xs arbitrary: a)
  case Nil
  then show ?case by simp
next
  case (Cons x xs)
  have "np_minimum (Fin a) (Fin x) = Fin (min a x)" by (simp add: min_def)
  moreover have "Min (insert (min a x) (set xs)) = Min (insert a (insert x (set xs)))"
    by (cases "set xs = {}") (simp_all add: min.assoc)
  ultimately show ?case by (simp add: Cons.IH)
qed

lemma foldl_np_maximum_Fin:
  "foldl np_maximum (Fin a) (map Fin xs) = Fin (Max (insert a (set xs)))"
proof (induction xs arbitrary: a)
  case Nil
  then show ?case by simp
next
  case (Cons x xs)
  have "np_maximum (Fin a) (Fin x) = Fin (max a x)" by (simp add: max_def)
  moreover have "Max (insert (max a x) (set xs)) = Max (insert a (insert x (set xs)))"
    by (cases "set xs = {}") (simp_all add: max.assoc)
  ultimately show ?case by (simp add: Cons.IH)
qed

lemma np_amin_Fin:
  assumes "flat v \<noteq> []"
  shows "np_amin (map_nd Fin v) = Inr (Fin (Min (set (flat v))))"
proof -
  obtain x xs where f: "flat v = x # xs" using assms by (cases "flat v") auto
  show ?thesis
    by (simp add: np_amin_def flat_map_nd f foldl_np_minimum_Fin)
qed

lemma np_amax_Fin:
  assumes "flat v \<noteq> []"
  shows "np_amax (map_nd Fin v) = Inr (Fin (Max (set (flat v))))"
proof -
  obtain x xs where f: "flat v = x # xs" using assms by (cases "flat v") auto
  show ?thesis
    by (simp add: np_amax_def flat_map_nd f foldl_np_maximum_Fin)
qed

lemma foldl_np_maximum_NaN: "foldl np_maximum NaN xs = NaN"
  by (induction xs) simp_all

lemma np_amax_all_NaN:
  assumes "flat v \<noteq> []"
  shows "np_amax (map_nd (\<lambda>_. NaN) v) = Inr NaN"
proof -
  obtain x xs where f: "flat v = x # xs" using assms by (cases "flat v") auto
  show ?thesis
    by (simp add: np_amax_def flat_map_nd f foldl_np_maximum_NaN)
qed

text \<open>The logarithm of line 88 on a magnitude, after line 87 has replaced the zeros.\<close>

lemma log_stage_Fin:
  assumes "\<And>x. x \<in> set (flat r) \<Longrightarrow> 0 \<le> x"
  shows "log_stage (map_nd Fin r) = map_nd Fin (map_nd (\<lambda>x. if x = 0 then 0 else ln x) r)"
  unfolding log_stage_def mask_assign_def map_nd_map_nd
proof (rule map_nd_cong_flat)
  fix x assume "x \<in> set (flat r)"
  then have "0 \<le> x" by (rule assms)
  then show "np_log (if np_eq (Fin x) (Fin 0) then Fin 1 else Fin x)
      = Fin (if x = 0 then 0 else ln x)"
    by (simp add: np_eq_def)
qed

lemma clamp_stage_Fin:
  assumes "flat l \<noteq> []"
  shows "clamp_stage (map_nd Fin l)
       = Inr (map_nd Fin (map_nd (\<lambda>x. if x = 0 then Min (set (flat l)) else x) l))"
  unfolding clamp_stage_def np_amin_Fin [OF assms] mask_assign_def map_nd_map_nd
  by (simp add: np_eq_def if_distrib cong: if_cong)

lemma Min_shift:
  fixes S :: "real set"
  assumes "finite S" "S \<noteq> {}"
  shows "Max ((\<lambda>x. x - m) ` S) = Max S - m"
  using mono_Max_commute [of "\<lambda>x. x - m" S] assms by (simp add: mono_def)

lemma normalize_stage_Fin:
  assumes "flat c \<noteq> []"
  shows "normalize_stage (map_nd Fin c) =
     (if Max (set (flat c)) = Min (set (flat c)) then Inr (map_nd (\<lambda>_. NaN) c)
      else Inr (map_nd Fin (map_nd (\<lambda>x. (x - Min (set (flat c))) / (Max (set (flat c)) - Min (set (flat c)))) c)))"
proof -
  let ?m = "Min (set (flat c))" and ?M = "Max (set (flat c))"
  have sh: "map_nd (\<lambda>x. np_sub x (Fin ?m)) (map_nd Fin c) = map_nd Fin (map_nd (\<lambda>x. x - ?m) c)"
    by (simp add: map_nd_map_nd)
  have ne: "flat (map_nd (\<lambda>x. x - ?m) c) \<noteq> []" using assms by (simp add: flat_map_nd)
  have S: "set (flat c) \<noteq> {}" using assms by simp
  have mx: "Max (set (flat (map_nd (\<lambda>x. x - ?m) c))) = ?M - ?m"
    using Min_shift [of "set (flat c)" ?m] S by (simp add: flat_map_nd)
  have am: "np_amax (map_nd Fin (map_nd (\<lambda>x. x - ?m) c)) = Inr (Fin (?M - ?m))"
    using np_amax_Fin [OF ne] mx by simp
  have "normalize_stage (map_nd Fin c)
      = Inr (map_nd (\<lambda>x. np_div x (Fin (?M - ?m))) (map_nd Fin (map_nd (\<lambda>x. x - ?m) c)))"
    by (simp only: normalize_stage_def np_amin_Fin [OF assms] Let_def sh am sum.case)
  then have N: "normalize_stage (map_nd Fin c)
      = Inr (map_nd (\<lambda>x. np_div (Fin (x - ?m)) (Fin (?M - ?m))) c)"
    by (simp only: map_nd_map_nd)
  show ?thesis
  proof (cases "?M = ?m")
    case True
    have "\<And>x. x \<in> set (flat c) \<Longrightarrow> x = ?m"
    proof -
      fix x assume x: "x \<in> set (flat c)"
      then have "?m \<le> x" "x \<le> ?M" by simp_all
      with True show "x = ?m" by simp
    qed
    then have "map_nd (\<lambda>x. np_div (Fin (x - ?m)) (Fin (?M - ?m))) c = map_nd (\<lambda>_. NaN) c"
      using True by (intro map_nd_cong_flat) simp
    with N True show ?thesis by simp
  next
    case False
    then have "map_nd (\<lambda>x. np_div (Fin (x - ?m)) (Fin (?M - ?m))) c
        = map_nd Fin (map_nd (\<lambda>x. (x - ?m) / (?M - ?m)) c)"
      by (simp add: map_nd_map_nd)
    with N False show ?thesis by simp
  qed
qed

lemma zoom_stage_NaN:
  assumes "flat c \<noteq> []"
  shows "zoom_stage (map_nd (\<lambda>_. NaN) c) = Inr (map_nd (\<lambda>_. NaN) c)"
  unfolding zoom_stage_def mask_assign_def Let_def map_nd_map_nd
  by (simp add: np_amax_all_NaN [OF assms] map_nd_map_nd)

lemma zoom_stage_Fin:
  assumes "flat v \<noteq> []" and "Max (set (flat v)) = 1"
  shows "zoom_stage (map_nd Fin v) = Inr (map_nd Fin (map_nd (\<lambda>x. (max x (1 / 4) - 1 / 4) / (3 / 4)) v))"
proof -
  let ?w = "map_nd (\<lambda>x. max x (1 / 4) - 1 / 4) v"
  have sh: "map_nd (\<lambda>x. np_sub x (Fin (1 / 4))) (mask_assign (\<lambda>x. np_lt x (Fin (1 / 4))) (Fin (1 / 4)) (map_nd Fin v))
      = map_nd Fin ?w"
    unfolding mask_assign_def map_nd_map_nd
    by (rule map_nd_cong_flat) (auto simp: max_def)
  have ne: "flat ?w \<noteq> []" using assms by (simp add: flat_map_nd)
  have "mono (\<lambda>x::real. max x (1 / 4) - 1 / 4)" by (auto simp: mono_def max_def)
  then have "Max ((\<lambda>x::real. max x (1 / 4) - 1 / 4) ` set (flat v)) = max (Max (set (flat v))) (1 / 4) - 1 / 4"
    using mono_Max_commute [of "\<lambda>x::real. max x (1 / 4) - 1 / 4" "set (flat v)"] assms(1) by simp
  then have mx: "Max (set (flat ?w)) = 3 / 4"
    using assms(2) by (simp add: flat_map_nd)
  have am: "np_amax (map_nd Fin ?w) = Inr (Fin (3 / 4))"
    using np_amax_Fin [OF ne] mx by simp
  have "zoom_stage (map_nd Fin v) = Inr (map_nd (\<lambda>x. np_div x (Fin (3 / 4))) (map_nd Fin ?w))"
    by (simp only: zoom_stage_def Let_def sh am sum.case)
  then show ?thesis
    by (simp add: map_nd_map_nd)
qed


lemma Min_flat_map_nd:
  fixes f :: "real \<Rightarrow> real"
  assumes "mono f" and "flat a \<noteq> []"
  shows "Min (set (flat (map_nd f a))) = f (Min (set (flat a)))"
  using mono_Min_commute [OF assms(1), of "set (flat a)"] assms(2) by (simp add: flat_map_nd)

lemma Max_flat_map_nd:
  fixes f :: "real \<Rightarrow> real"
  assumes "mono f" and "flat a \<noteq> []"
  shows "Max (set (flat (map_nd f a))) = f (Max (set (flat a)))"
  using mono_Max_commute [OF assms(1), of "set (flat a)"] assms(2) by (simp add: flat_map_nd)

section \<open>Properties of normalisation and zooming\<close>

text \<open>
  C1: for every non-empty bins array with at least two distinct values,
  \<open>normalization_and_zooming\<close> returns an array whose minimum is 0 and whose maximum is 1,
  the values below the 0.25 floor being clipped to the floor before the final rescale.
  As stated this fails: the array \<open>[[0, 1]]\<close> has two distinct values, both have
  logarithm 0 after line 87, line 92 divides 0 by 0, and every entry of the result is NaN.
\<close>

theorem two_values_nan_counterexample:
  "normalization_and_zooming (NDArray 2 [[Fin 0, Fin 1]]) = Inr (NDArray 2 [[NaN, NaN]])
   \<and> np_amin (NDArray 2 [[NaN, NaN]]) = Inr NaN
   \<and> np_amax (NDArray 2 [[NaN, NaN]]) = Inr NaN"
  by (simp add: normalization_and_zooming_def clamp_stage_def log_stage_def normalize_stage_def
      zoom_stage_def mask_assign_def map_nd_def np_amin_def np_amax_def flat_def np_eq_def Let_def)

text \<open>
  C1 as amended: for every non-empty bins array of finite values that are not negative,
  what matters is the array of logarithms after line 90 (zeros read as 1, then the zero
  logarithms set to the minimum). When that array has two distinct values, the result has
  minimum exactly 0 and maximum exactly 1, and each entry is the once-normalised value,
  raised to 0.25 where it is below, less 0.25, over 0.75. When all its values are equal,
  every entry of the result is NaN.
\<close>

theorem normalization_and_zooming_min_max:
  assumes ne: "flat r \<noteq> []" and nn: "\<forall>x\<in>set (flat r). 0 \<le> x"
  shows "\<exists>c. clamp_stage (log_stage (map_nd Fin r)) = Inr (map_nd Fin c)
           \<and> (if Max (set (flat c)) = Min (set (flat c))
              then normalization_and_zooming (map_nd Fin r) = Inr (map_nd (\<lambda>_. NaN) r)
              else \<exists>res. normalization_and_zooming (map_nd Fin r) = Inr res
                     \<and> np_amin res = Inr (Fin 0) \<and> np_amax res = Inr (Fin 1)
                     \<and> res = map_nd (\<lambda>l. Fin ((max ((l - Min (set (flat c)))
                                                     / (Max (set (flat c)) - Min (set (flat c)))) (1 / 4)
                                               - 1 / 4) / (3 / 4))) c)"
proof -
  define l where "l = map_nd (\<lambda>x. if x = 0 then 0 else ln x) r"
  define c where "c = map_nd (\<lambda>x. if x = 0 then Min (set (flat l)) else x) l"
  have lne: "flat l \<noteq> []" using ne by (simp add: l_def flat_map_nd)
  have cne: "flat c \<noteq> []" using lne by (simp add: c_def flat_map_nd)
  have L: "log_stage (map_nd Fin r) = map_nd Fin l"
    unfolding l_def using nn by (intro log_stage_Fin) simp
  have C: "clamp_stage (log_stage (map_nd Fin r)) = Inr (map_nd Fin c)"
    unfolding L c_def by (rule clamp_stage_Fin [OF lne])
  let ?m = "Min (set (flat c))" and ?M = "Max (set (flat c))"
  have fin: "finite (set (flat c))" "set (flat c) \<noteq> {}" using cne by simp_all
  show ?thesis
  proof (cases "?M = ?m")
    case True
    have "map_nd (\<lambda>_. NaN) c = map_nd (\<lambda>_. NaN) r"
      by (simp add: c_def l_def map_nd_map_nd)
    moreover have "normalization_and_zooming (map_nd Fin r) = Inr (map_nd (\<lambda>_. NaN) c)"
      using True by (simp add: normalization_and_zooming_def C normalize_stage_Fin [OF cne]
          zoom_stage_NaN [OF cne])
    ultimately have "normalization_and_zooming (map_nd Fin r) = Inr (map_nd (\<lambda>_. NaN) r)"
      by simp
    with C True show ?thesis by auto
  next
    case False
    have "?m \<le> ?M" using fin by (simp add: Min_le_iff)
    with False have pos: "0 < ?M - ?m" by simp
    define n where "n = (\<lambda>x. (x - ?m) / (?M - ?m))"
    define z where "z = (\<lambda>x::real. (max x (1 / 4) - 1 / 4) / (3 / 4))"
    have mn: "mono n" using pos by (simp add: n_def mono_def divide_right_mono)
    have mz: "mono z" by (auto simp: z_def mono_def max_def)
    have vne: "flat (map_nd n c) \<noteq> []" using cne by (simp add: flat_map_nd)
    have "n ?M = 1" using pos by (simp add: n_def)
    then have vmax: "Max (set (flat (map_nd n c))) = 1"
      by (simp only: Max_flat_map_nd [OF mn cne])
    have "n ?m = 0" by (simp add: n_def)
    then have vmin: "Min (set (flat (map_nd n c))) = 0"
      by (simp only: Min_flat_map_nd [OF mn cne])
    define res where "res = map_nd Fin (map_nd z (map_nd n c))"
    have N: "normalize_stage (map_nd Fin c) = Inr (map_nd Fin (map_nd n c))"
      using False by (simp add: normalize_stage_Fin [OF cne] n_def)
    have Z: "zoom_stage (map_nd Fin (map_nd n c)) = Inr res"
      unfolding res_def z_def by (rule zoom_stage_Fin [OF vne vmax])
    have R: "normalization_and_zooming (map_nd Fin r) = Inr res"
      by (simp add: normalization_and_zooming_def C N Z)
    have rne: "flat (map_nd z (map_nd n c)) \<noteq> []" using vne by (simp add: flat_map_nd)
    have "Min (set (flat (map_nd z (map_nd n c)))) = z 0"
      by (simp only: Min_flat_map_nd [OF mz vne] vmin)
    then have amin: "np_amin res = Inr (Fin 0)"
      unfolding res_def np_amin_Fin [OF rne] by (simp add: z_def)
    have "Max (set (flat (map_nd z (map_nd n c)))) = z 1"
      by (simp only: Max_flat_map_nd [OF mz vne] vmax)
    then have amax: "np_amax res = Inr (Fin 1)"
      unfolding res_def np_amax_Fin [OF rne] by (simp add: z_def)
    have form: "res = map_nd (\<lambda>l. Fin ((max ((l - ?m) / (?M - ?m)) (1 / 4) - 1 / 4) / (3 / 4))) c"
      by (simp add: res_def map_nd_map_nd z_def n_def)
    from C False R amin amax form show ?thesis by auto
  qed
qed

theorem normalization_and_zooming_min_max_witness:
  "flat (NDArray 2 [[1, exp 1 :: real]]) \<noteq> []
   \<and> list_all (\<lambda>x. 0 \<le> x) (flat (NDArray 2 [[1, exp 1 :: real]]))
   \<and> (\<exists>res. normalization_and_zooming (map_nd Fin (NDArray 2 [[1, exp 1 :: real]])) = Inr res
           \<and> np_amin res = Inr (Fin 0) \<and> np_amax res = Inr (Fin 1))"
proof -
  have ne: "flat (NDArray 2 [[1, exp 1 :: real]]) \<noteq> []"
    by (simp add: flat_def)
  have nn: "\<forall>x\<in>set (flat (NDArray 2 [[1, exp 1 :: real]])). 0 \<le> x"
    by (simp add: flat_def)
  have C: "clamp_stage (log_stage (map_nd Fin (NDArray 2 [[1, exp 1 :: real]]))) = Inr (map_nd Fin (NDArray 2 [[0, 1]]))"
    by (simp add: clamp_stage_def log_stage_def mask_assign_def map_nd_def np_amin_def flat_def
        np_eq_def)
  obtain c where c: "clamp_stage (log_stage (map_nd Fin (NDArray 2 [[1, exp 1 :: real]]))) = Inr (map_nd Fin c)"
    and r: "if Max (set (flat c)) = Min (set (flat c))
            then normalization_and_zooming (map_nd Fin (NDArray 2 [[1, exp 1 :: real]])) = Inr (map_nd (\<lambda>_. NaN) (NDArray 2 [[1, exp 1 :: real]]))
            else \<exists>res. normalization_and_zooming (map_nd Fin (NDArray 2 [[1, exp 1 :: real]])) = Inr res
                   \<and> np_amin res = Inr (Fin 0) \<and> np_amax res = Inr (Fin 1)
                   \<and> res = map_nd (\<lambda>l. Fin ((max ((l - Min (set (flat c)))
                                                   / (Max (set (flat c)) - Min (set (flat c)))) (1 / 4)
                                             - 1 / 4) / (3 / 4))) c"
    using normalization_and_zooming_min_max [OF ne nn] by blast
  have "map_nd Fin c = map_nd Fin (NDArray 2 [[0, 1]])"
    using c C by simp
  then have "c = NDArray 2 [[0, 1]]"
    by (cases c) (auto simp: map_nd_def)
  then have "Max (set (flat c)) \<noteq> Min (set (flat c))"
    by (simp add: flat_def)
  with r ne nn show ?thesis by (auto simp: list_all_iff)
qed

section \<open>Shapes through the spectral binner\<close>

lemma same_shape_refl [simp]: "same_shape a a"
  by (simp add: same_shape_def)

lemma same_shape_trans: "same_shape a b \<Longrightarrow> same_shape b c \<Longrightarrow> same_shape a c"
  by (simp add: same_shape_def)

lemma same_shape_map_nd [simp]: "same_shape (map_nd f a) a"
  by (simp add: same_shape_def map_nd_def o_def)

lemma same_shape_shape0: "same_shape a b \<Longrightarrow> shape0 a = shape0 b"
  unfolding same_shape_def shape0_def by (metis length_map)

lemma same_shape_shape1: "same_shape a b \<Longrightarrow> shape1 a = shape1 b"
  by (simp add: same_shape_def)

lemma wf_ndarray_lengths: "wf_ndarray a \<longleftrightarrow> (\<forall>n\<in>set (map length (rows a)). n = shape1 a)"
  by (auto simp: wf_ndarray_def list_all_iff)

lemma same_shape_wf: "same_shape a b \<Longrightarrow> wf_ndarray b \<Longrightarrow> wf_ndarray a"
  unfolding wf_ndarray_lengths by (simp add: same_shape_def)

lemma length_flat: "length (flat a) = sum_list (map length (rows a))"
  by (simp add: flat_def length_concat)

lemma same_shape_length_flat: "same_shape a b \<Longrightarrow> length (flat a) = length (flat b)"
  by (simp add: length_flat same_shape_def)

lemma same_shape_flat: "same_shape a b \<Longrightarrow> flat b \<noteq> [] \<Longrightarrow> flat a \<noteq> []"
  using same_shape_length_flat [of a b] by (metis length_0_conv)

lemma set_item_same_shape: "set_item a i j v = Inr b \<Longrightarrow> same_shape b a"
  by (auto simp: set_item_def same_shape_def map_update list_update_same_conv shape0_def
      split: if_splits)

lemma band_loop_same_shape:
  "band_loop Zxx bb column idxs bins = Inr bins' \<Longrightarrow> same_shape bins' bins"
proof (induction idxs arbitrary: bins)
  case Nil
  then show ?case by simp
next
  case (Cons i idxs)
  from Cons.prems obtain average b1 where
    s: "set_item bins i column (np_abs average) = Inr b1"
    and r: "band_loop Zxx bb column idxs b1 = Inr bins'"
    by (auto split: sum.splits)
  from Cons.IH [OF r] set_item_same_shape [OF s] show ?case
    by (rule same_shape_trans)
qed

lemma column_loop_same_shape:
  "column_loop Zxx bb cols bins = Inr bins' \<Longrightarrow> same_shape bins' bins"
proof (induction cols arbitrary: bins)
  case Nil
  then show ?case by simp
next
  case (Cons c cols)
  from Cons.prems obtain b1 where
    s: "band_loop Zxx bb c [0..<shape0 bins] bins = Inr b1"
    and r: "column_loop Zxx bb cols b1 = Inr bins'"
    by (auto split: sum.splits)
  from Cons.IH [OF r] band_loop_same_shape [OF s] show ?case
    by (rule same_shape_trans)
qed

lemma band_loop_total:
  assumes "\<forall>i\<in>set idxs. i < shape0 bins" and "column < shape1 bins" and "column < shape1 Zxx"
  shows "\<exists>bins'. band_loop Zxx bb column idxs bins = Inr bins'"
  using assms
proof (induction idxs arbitrary: bins)
  case Nil
  then show ?case by simp
next
  case (Cons i idxs)
  obtain average where a: "get_bin_average column (bb ! i) (bb ! (i + 1)) Zxx = Inr average"
    using Cons.prems(3) by (simp add: get_bin_average_def Let_def)
  obtain b1 where s: "set_item bins i column (np_abs average) = Inr b1"
    using Cons.prems(1,2) by (simp add: set_item_def)
  have sh: "same_shape b1 bins" using s by (rule set_item_same_shape)
  have "\<forall>i\<in>set idxs. i < shape0 b1" "column < shape1 b1"
    using Cons.prems(1,2) same_shape_shape0 [OF sh] same_shape_shape1 [OF sh] by simp_all
  from Cons.IH [OF this Cons.prems(3)] a s show ?case by simp
qed

lemma column_loop_total:
  assumes "\<forall>c\<in>set cols. c < shape1 bins \<and> c < shape1 Zxx"
  shows "\<exists>bins'. column_loop Zxx bb cols bins = Inr bins'"
  using assms
proof (induction cols arbitrary: bins)
  case Nil
  then show ?case by simp
next
  case (Cons c cols)
  have "\<forall>i\<in>set [0..<shape0 bins]. i < shape0 bins" by simp
  moreover have "c < shape1 bins" "c < shape1 Zxx" using Cons.prems by simp_all
  ultimately obtain b1 where s: "band_loop Zxx bb c [0..<shape0 bins] bins = Inr b1"
    using band_loop_total by blast
  have sh: "same_shape b1 bins" using s by (rule band_loop_same_shape)
  have "\<forall>c\<in>set cols. c < shape1 b1 \<and> c < shape1 Zxx"
    using Cons.prems same_shape_shape1 [OF sh] by simp
  from Cons.IH [OF this] s show ?case by simp
qed

lemma np_amin_total: "flat a \<noteq> [] \<Longrightarrow> \<exists>m. np_amin a = Inr m"
  by (cases "flat a") (simp_all add: np_amin_def)

lemma np_amax_total: "flat a \<noteq> [] \<Longrightarrow> \<exists>m. np_amax a = Inr m"
  by (cases "flat a") (simp_all add: np_amax_def)

lemma np_amin_Inr: "np_amin a = Inr m \<Longrightarrow> flat a \<noteq> []"
  by (cases "flat a") (simp_all add: np_amin_def)

lemma normalization_and_zooming_same_shape:
  assumes "normalization_and_zooming bins = Inr res"
  shows "same_shape res bins"
proof -
  from assms obtain c n where c: "clamp_stage (log_stage bins) = Inr c"
    and n: "normalize_stage c = Inr n" and z: "zoom_stage n = Inr res"
    by (auto simp: normalization_and_zooming_def split: sum.splits)
  have 1: "same_shape (log_stage bins) bins"
    by (simp add: log_stage_def mask_assign_def map_nd_map_nd)
  from c obtain m where "c = mask_assign (\<lambda>x. np_eq x (Fin 0)) m (log_stage bins)"
    by (auto simp: clamp_stage_def split: sum.splits)
  then have 2: "same_shape c (log_stage bins)"
    by (simp add: mask_assign_def)
  from n obtain m' M where "n = map_nd (\<lambda>x. np_div x M) (map_nd (\<lambda>x. np_sub x m') c)"
    by (auto simp: normalize_stage_def Let_def split: sum.splits)
  then have 3: "same_shape n c"
    by (simp add: map_nd_map_nd)
  from z obtain M' where "res = map_nd (\<lambda>x. np_div x M')
      (map_nd (\<lambda>x. np_sub x (Fin (1 / 4))) (map_nd (\<lambda>x. if np_lt x (Fin (1 / 4)) then Fin (1 / 4) else x) n))"
    by (auto simp: zoom_stage_def mask_assign_def Let_def split: sum.splits)
  then have 4: "same_shape res n"
    by (simp add: map_nd_map_nd)
  from 4 3 have "same_shape res c" by (rule same_shape_trans)
  then have "same_shape res (log_stage bins)" using 2 by (rule same_shape_trans)
  then show ?thesis using 1 by (rule same_shape_trans)
qed

lemma normalization_and_zooming_total:
  assumes "flat bins \<noteq> []"
  shows "\<exists>res. normalization_and_zooming bins = Inr res"
proof -
  have 1: "flat (log_stage bins) \<noteq> []"
    using assms by (simp add: log_stage_def mask_assign_def flat_map_nd)
  then obtain m where m: "np_amin (log_stage bins) = Inr m" using np_amin_total by blast
  then obtain c where c: "clamp_stage (log_stage bins) = Inr c"
    and cf: "flat c \<noteq> []"
    using 1 by (simp add: clamp_stage_def mask_assign_def flat_map_nd)
  obtain m' where m': "np_amin c = Inr m'" using cf np_amin_total by blast
  have "flat (map_nd (\<lambda>x. np_sub x m') c) \<noteq> []" using cf by (simp add: flat_map_nd)
  then obtain M where M: "np_amax (map_nd (\<lambda>x. np_sub x m') c) = Inr M"
    using np_amax_total by blast
  obtain n where n: "normalize_stage c = Inr n" and nf: "flat n \<noteq> []"
    using m' M cf by (simp add: normalize_stage_def Let_def flat_map_nd)
  have "flat (map_nd (\<lambda>x. np_sub x (Fin (1 / 4)))
           (mask_assign (\<lambda>x. np_lt x (Fin (1 / 4))) (Fin (1 / 4)) n)) \<noteq> []"
    using nf by (simp add: mask_assign_def flat_map_nd)
  then obtain M' where "np_amax (map_nd (\<lambda>x. np_sub x (Fin (1 / 4)))
           (mask_assign (\<lambda>x. np_lt x (Fin (1 / 4))) (Fin (1 / 4)) n)) = Inr M'"
    using np_amax_total by blast
  then obtain res where "zoom_stage n = Inr res"
    by (simp add: zoom_stage_def Let_def)
  with c n show ?thesis by (simp add: normalization_and_zooming_def)
qed

lemma wf_np_zeros: "wf_ndarray (np_zeros n m)"
  by (simp add: wf_ndarray_def np_zeros_def list_all_iff)

lemma flat_np_zeros: "0 < n \<Longrightarrow> 0 < m \<Longrightarrow> flat (np_zeros n m) \<noteq> []"
  by (cases n; cases m) (simp_all add: flat_def np_zeros_def)

lemma channel_bins_Inr:
  assumes "channel_bins Zxx bb = Inr bins"
  shows "shape0 bins = length bb - 1 \<and> shape1 bins = shape1 Zxx + 1 \<and> wf_ndarray bins"
proof -
  let ?Z = "NDArray (shape1 Zxx + 1) (rev (map (\<lambda>r. r @ [0]) (rows Zxx)))"
  from assms obtain filled where
    f: "column_loop ?Z bb [0..<shape1 Zxx + 1] (np_zeros (length bb - 1) (shape1 Zxx + 1)) = Inr filled"
    and n: "normalization_and_zooming filled = Inr bins"
    by (auto simp: channel_bins_def Let_def split: if_splits sum.splits)
  have sh: "same_shape bins (np_zeros (length bb - 1) (shape1 Zxx + 1))"
    using normalization_and_zooming_same_shape [OF n] column_loop_same_shape [OF f]
    by (rule same_shape_trans)
  have "shape0 bins = length bb - 1"
    using same_shape_shape0 [OF sh] by (simp add: np_zeros_def shape0_def)
  moreover have "shape1 bins = shape1 Zxx + 1"
    using same_shape_shape1 [OF sh] by (simp add: np_zeros_def)
  moreover have "wf_ndarray bins"
    using sh wf_np_zeros by (rule same_shape_wf)
  ultimately show ?thesis by simp
qed

lemma channel_bins_total:
  assumes "2 \<le> length bb"
  shows "\<exists>bins. channel_bins Zxx bb = Inr bins"
proof -
  let ?Z = "NDArray (shape1 Zxx + 1) (rev (map (\<lambda>r. r @ [0]) (rows Zxx)))"
  let ?z = "np_zeros (length bb - 1) (shape1 Zxx + 1)"
  have "\<forall>c\<in>set [0..<shape1 Zxx + 1]. c < shape1 ?z \<and> c < shape1 ?Z"
    by (simp add: np_zeros_def)
  then obtain filled where f: "column_loop ?Z bb [0..<shape1 Zxx + 1] ?z = Inr filled"
    using column_loop_total by blast
  have "flat ?z \<noteq> []" using assms by (intro flat_np_zeros) simp_all
  then have "flat filled \<noteq> []"
    using same_shape_flat [OF column_loop_same_shape [OF f]] by simp
  then obtain bins where "normalization_and_zooming filled = Inr bins"
    using normalization_and_zooming_total by blast
  with f assms show ?thesis
    by (auto simp: channel_bins_def Let_def)
qed

lemma wav_to_bins_single:
  assumes "wav_to_bins wavfile_read stft filename 1 bb = Inr result"
  shows "\<exists>bins0. result = Single bins0 \<and> shape0 bins0 = length bb - 1"
  using assms
  by (auto simp: wav_to_bins_def split: sum.splits prod.splits dest: channel_bins_Inr)

section \<open>Properties of the spectral binner and of the script\<close>

text \<open>
  C6: for every valid \<open>bin_boundaries\<close> list, the bins array that \<open>wav_to_bins\<close> returns
  for a channel has exactly \<open>len(bin_boundaries) - 1\<close> rows, and every frame has all the
  bands. Any list of two or more boundaries will do: when the file is read, the channels
  are there and the transform succeeds, \<open>wav_to_bins\<close> returns, and each array it returns
  has that many rows, one more column than the transform has frames, and rows of full
  length.
\<close>

theorem wav_to_bins_band_count:
  assumes bb: "2 \<le> length bin_boundaries"
    and rd: "wavfile_read filename = Inr (rate, data)"
    and c0: "channel data 0 = Inr samples0" and s0: "stft samples0 rate = Inr Zxx0"
    and st: "mono_flag = 0 \<longrightarrow> channel data 1 = Inr samples1 \<and> stft samples1 rate = Inr Zxx1"
  shows "\<exists>bins0 bins1.
      wav_to_bins wavfile_read stft filename mono_flag bin_boundaries
        = Inr (if mono_flag = 0 then Both bins0 bins1 else Single bins0)
      \<and> shape0 bins0 = length bin_boundaries - 1 \<and> shape1 bins0 = shape1 Zxx0 + 1
      \<and> wf_ndarray bins0
      \<and> (mono_flag = 0 \<longrightarrow>
            shape0 bins1 = length bin_boundaries - 1 \<and> shape1 bins1 = shape1 Zxx1 + 1
            \<and> wf_ndarray bins1)"
proof -
  obtain bins0 where b0: "channel_bins Zxx0 bin_boundaries = Inr bins0"
    using channel_bins_total [OF bb] by blast
  note sh0 = channel_bins_Inr [OF b0]
  show ?thesis
  proof (cases "mono_flag = 0")
    case True
    obtain bins1 where b1: "channel_bins Zxx1 bin_boundaries = Inr bins1"
      using channel_bins_total [OF bb] by blast
    note sh1 = channel_bins_Inr [OF b1]
    have "wav_to_bins wavfile_read stft filename mono_flag bin_boundaries = Inr (Both bins0 bins1)"
      using True rd c0 s0 st b0 b1 by (simp add: wav_to_bins_def)
    with True sh0 sh1 show ?thesis by auto
  next
    case False
    have "wav_to_bins wavfile_read stft filename mono_flag bin_boundaries = Inr (Single bins0)"
      using False rd c0 s0 b0 by (simp add: wav_to_bins_def)
    with False sh0 show ?thesis by auto
  qed
qed

theorem wav_to_bins_band_count_witness:
  "2 \<le> length [4, 37, 93, 371 :: int]
   \<and> stereo_file ''a.wav'' = Inr (44100, stereo_sample)
   \<and> channel stereo_sample 0 = Inr [0]
   \<and> small_stft [0 :: int] 44100 = Inr (NDArray 1 [[1], [2]])
   \<and> channel stereo_sample 1 = Inr [0]
   \<and> (\<exists>bins0 bins1.
         wav_to_bins stereo_file small_stft ''a.wav'' 0 [4, 37, 93, 371] = Inr (Both bins0 bins1)
         \<and> shape0 bins0 = 3 \<and> shape1 bins0 = 2 \<and> wf_ndarray bins0
         \<and> shape0 bins1 = 3 \<and> shape1 bins1 = 2 \<and> wf_ndarray bins1)"
proof -
  have bb: "2 \<le> length [4, 37, 93, 371 :: int]" by simp
  have rd: "stereo_file ''a.wav'' = Inr (44100, stereo_sample)"
    by simp
  have c0: "channel stereo_sample 0 = Inr [0]"
    by (simp add: get_column_def)
  have s0: "small_stft [0 :: int] 44100 = Inr (NDArray 1 [[1], [2]])"
    by simp
  have c1: "channel stereo_sample 1 = Inr [0]"
    by (simp add: get_column_def)
  have st: "(0::int) = 0 \<longrightarrow> channel stereo_sample 1 = Inr [0]
      \<and> small_stft [0 :: int] 44100 = Inr (NDArray 1 [[1], [2]])"
    using c1 s0 by simp
  from wav_to_bins_band_count [where filename = "''a.wav''", OF bb rd c0 s0 st]
  obtain bins0 bins1 where
    "wav_to_bins stereo_file
       small_stft ''a.wav'' 0 [4, 37, 93, 371] = Inr (Both bins0 bins1)"
    "shape0 bins0 = 3" "shape1 bins0 = 2" "wf_ndarray bins0"
    "shape0 bins1 = 3" "shape1 bins1 = 2" "wf_ndarray bins1"
    by auto
  with bb rd c0 s0 c1 show ?thesis by blast
qed

text \<open>
  C4: with the mono flag \<open>'1'\<close> the script never renders. \<open>wav_to_bins\<close>, when it returns,
  returns a single array and not a pair; with the boundaries \<open>[4, 37, 93, 371]\<close> that
  array has three rows, and unpacking it into two names raises ValueError, which is what
  the script ends with once its assertions have passed.
\<close>

theorem mono_flag_never_renders:
  assumes "args ! 2 = ''1''"
  shows "(\<exists>e. main wavfile_read stft py_int rnd args = Inl e)
       \<and> (\<forall>result. wav_to_bins wavfile_read stft (args ! 1) 1 [4, 37, 93, 371] = Inr result \<longrightarrow>
             (\<exists>bins0. result = Single bins0 \<and> shape0 bins0 = 3)
             \<and> unpack_pair result = Inl ValueError
             \<and> (length args = 6 \<and> last4 (args ! 1) = ''.wav'' \<and> last4 (args ! 3) = ''.mp4''
                  \<and> last4 (args ! 4) = ''.mp4'' \<and> args ! 5 \<in> set [''0'', ''1'']
                \<longrightarrow> main wavfile_read stft py_int rnd args = Inl ValueError))"
proof -
  have U: "\<And>result. wav_to_bins wavfile_read stft (args ! 1) 1 [4, 37, 93, 371] = Inr result \<Longrightarrow>
      (\<exists>bins0. result = Single bins0 \<and> shape0 bins0 = 3) \<and> unpack_pair result = Inl ValueError"
  proof -
    fix result
    assume "wav_to_bins wavfile_read stft (args ! 1) 1 [4, 37, 93, 371] = Inr result"
    from wav_to_bins_single [OF this] obtain bins0
      where "result = Single bins0" "shape0 bins0 = 3" by auto
    then show "(\<exists>bins0. result = Single bins0 \<and> shape0 bins0 = 3) \<and> unpack_pair result = Inl ValueError"
      by simp
  qed
  have A: "\<exists>e. main wavfile_read stft py_int rnd args = Inl e"
  proof (cases "wav_to_bins wavfile_read stft (args ! 1) 1 [4, 37, 93, 371]")
    case (Inl e)
    then show ?thesis
      using assms by (simp add: main_def Let_def split: sum.splits)
  next
    case (Inr result)
    with U [OF Inr] show ?thesis
      using assms by (simp add: main_def Let_def split: sum.splits)
  qed
  have B: "\<And>result. wav_to_bins wavfile_read stft (args ! 1) 1 [4, 37, 93, 371] = Inr result \<Longrightarrow>
      length args = 6 \<and> last4 (args ! 1) = ''.wav'' \<and> last4 (args ! 3) = ''.mp4''
                  \<and> last4 (args ! 4) = ''.mp4'' \<and> args ! 5 \<in> set [''0'', ''1'']
        \<Longrightarrow> main wavfile_read stft py_int rnd args = Inl ValueError"
    using U assms by (simp add: main_def Let_def)
  from A U B show ?thesis by blast
qed

theorem mono_flag_never_renders_witness:
  "mono_args ! 2 = ''1''
   \<and> main stereo_file small_stft
        (\<lambda>_. Inl ValueError) (\<lambda>_. 0) mono_args = Inl ValueError"
proof -
  let ?args = "mono_args"
  let ?read = "stereo_file :: string \<Rightarrow> error + nat \<times> int wavdata"
  let ?stft = "small_stft :: int list \<Rightarrow> nat \<Rightarrow> error + complex ndarray"
  have a: "?args ! 2 = ''1''" by simp
  obtain bins0 where "channel_bins (NDArray 1 [[1], [2]]) [4, 37, 93, 371] = Inr bins0"
    using channel_bins_total [of "[4, 37, 93, 371]"] by auto
  then have "wav_to_bins ?read ?stft (?args ! 1) 1 [4, 37, 93, 371] = Inr (Single bins0)"
    by (simp add: wav_to_bins_def)
  moreover have "length ?args = 6 \<and> last4 (?args ! 1) = ''.wav'' \<and> last4 (?args ! 3) = ''.mp4''
                  \<and> last4 (?args ! 4) = ''.mp4'' \<and> ?args ! 5 \<in> set [''0'', ''1'']"
    by (simp add: last4_def)
  ultimately show ?thesis
    using a mono_flag_never_renders [OF a, of ?read ?stft "\<lambda>_. Inl ValueError" "\<lambda>_. 0"] by blast
qed

section \<open>The loop of the emphasis detector\<close>

lemma num_geq_loop_filter:
  "num_geq_loop xs x acc = acc + int (length (filter (\<lambda>y. np_ge y x) xs))"
  by (induction xs arbitrary: acc) auto

lemma take_drop_upt:
  assumes "hi \<le> length xs"
  shows "take (hi - lo) (drop lo xs) = map ((!) xs) [lo..<hi]"
proof (rule map_upt_eqI [symmetric])
  show "length (take (hi - lo) (drop lo xs)) = hi - lo"
    using assms by simp
next
  fix i assume "i < length (take (hi - lo) (drop lo xs))"
  then show "take (hi - lo) (drop lo xs) ! i = xs ! (lo + i)"
    using assms by simp
qed

lemma py_slice_upt:
  assumes "0 \<le> lo" and "0 \<le> hi" and "hi \<le> int (length xs)"
  shows "py_slice xs lo hi = map ((!) xs) [nat lo..<nat hi]"
proof -
  have hi: "nat hi \<le> length xs" using assms by linarith
  have "py_slice xs lo hi = take (nat hi - nat (min lo (int (length xs)))) (drop (nat (min lo (int (length xs)))) xs)"
    using assms by (simp add: py_slice_def Let_def min_absorb1)
  also have "\<dots> = map ((!) xs) [nat (min lo (int (length xs)))..<nat hi]"
    using hi by (rule take_drop_upt)
  also have "\<dots> = map ((!) xs) [nat lo..<nat hi]"
  proof (cases "lo \<le> int (length xs)")
    case True then show ?thesis by (simp add: min_absorb1)
  next
    case False
    then have "nat hi \<le> nat lo" "nat hi \<le> nat (min lo (int (length xs)))" using assms by linarith+
    then show ?thesis by simp
  qed
  finally show ?thesis .
qed

lemma window_iff: "j \<in> window n horizon i \<longleftrightarrow> j < n \<and> \<bar>int j - int i\<bar> \<le> horizon"
  by (auto simp: window_def)

lemma window_atLeastLessThan:
  assumes "0 \<le> horizon" "i < n"
  shows "window n horizon i = {nat (max 0 (int i - horizon))..<nat (min (int n) (int i + horizon + 1))}"
  using assms by (auto simp: window_iff abs_le_iff)

lemma neighbors_at_upt:
  assumes "0 \<le> horizon"
  shows "neighbors_at test1 horizon i =
     map ((!) test1) [nat (max 0 (int i - horizon))..<nat (min (int (length test1)) (int i + horizon + 1))]"
  unfolding neighbors_at_def using assms by (intro py_slice_upt) auto

lemma length_filter_upt_card:
  "length (filter P [a..<b]) = card {j \<in> {a..<b}. P j}"
proof -
  have "distinct (filter P [a..<b])" by simp
  then have "card (set (filter P [a..<b])) = length (filter P [a..<b])"
    by (rule distinct_card)
  moreover have "set (filter P [a..<b]) = {j \<in> {a..<b}. P j}" by auto
  ultimately show ?thesis by metis
qed

lemma result_at_window:
  assumes "0 \<le> horizon" "i < length test1"
  shows "result_at test1 horizon i =
     (if card (window (length test1) horizon i) = 1 then Inl ZeroDivisionError
      else Inr ((real (card {j \<in> window (length test1) horizon i. np_ge (test1 ! j) (test1 ! i)}) - 1)
               / (real (card (window (length test1) horizon i)) - 1)))"
proof -
  let ?lo = "nat (max 0 (int i - horizon))"
  let ?hi = "nat (min (int (length test1)) (int i + horizon + 1))"
  have W: "window (length test1) horizon i = {?lo..<?hi}"
    using assms by (rule window_atLeastLessThan)
  have N: "neighbors_at test1 horizon i = map ((!) test1) [?lo..<?hi]"
    using assms(1) by (rule neighbors_at_upt)
  have len: "length (neighbors_at test1 horizon i) = card (window (length test1) horizon i)"
    by (simp add: N W)
  have cnt: "num_geq_loop (neighbors_at test1 horizon i) (test1 ! i) 0
      = int (card {j \<in> window (length test1) horizon i. np_ge (test1 ! j) (test1 ! i)})"
    by (simp add: num_geq_loop_filter N W filter_map o_def length_filter_upt_card)
  have "?lo \<le> i" "i < ?hi" using assms by linarith+
  then have "?lo < ?hi" by linarith
  then have pos: "0 < card (window (length test1) horizon i)"
    unfolding W card_atLeastLessThan by linarith
  show ?thesis
    unfolding result_at_def Let_def cnt len using pos
    by (auto simp: of_nat_diff)
qed

lemma find_points_loop_char:
  "find_points_loop test1 threshold horizon idxs keep =
     (if \<exists>i\<in>set idxs. result_at test1 horizon i = Inl ZeroDivisionError
      then Inl ZeroDivisionError
      else Inr (keep @ filter (\<lambda>i. \<exists>r. result_at test1 horizon i = Inr r \<and> threshold \<le> r) idxs))"
proof (induction idxs arbitrary: keep)
  case Nil
  then show ?case by simp
next
  case (Cons i idxs)
  have e: "\<And>e. result_at test1 horizon i = Inl e \<Longrightarrow> e = ZeroDivisionError"
    by (auto simp: result_at_def Let_def split: if_splits)
  show ?case
  proof (cases "result_at test1 horizon i")
    case (Inl err)
    with e show ?thesis by simp
  next
    case (Inr r)
    then show ?thesis by (simp add: Cons.IH)
  qed
qed

lemma length_column_means [simp]: "length (column_means b) = shape1 b"
  by (simp add: column_means_def)

lemma find_points_char:
  assumes "0 \<le> horizon" and "g_bins0 g = Some b" and "0 < shape1 b"
  shows "find_points g threshold horizon =
     (if \<exists>i<shape1 b. card (window (shape1 b) horizon i) = 1 then Inl ZeroDivisionError
      else Inr (filter (\<lambda>i. threshold \<le>
                 (real (card {j \<in> window (shape1 b) horizon i.
                          np_ge (column_means b ! j) (column_means b ! i)}) - 1)
                 / (real (card (window (shape1 b) horizon i)) - 1)) [0..<shape1 b]))"
proof -
  let ?t = "column_means b"
  let ?n = "shape1 b"
  have R: "\<And>i. i < ?n \<Longrightarrow> result_at ?t horizon i =
     (if card (window ?n horizon i) = 1 then Inl ZeroDivisionError
      else Inr ((real (card {j \<in> window ?n horizon i. np_ge (?t ! j) (?t ! i)}) - 1)
               / (real (card (window ?n horizon i)) - 1)))"
    using result_at_window [OF assms(1), of _ ?t] by simp
  have E: "(\<exists>i\<in>set [0..<?n]. result_at ?t horizon i = Inl ZeroDivisionError)
       \<longleftrightarrow> (\<exists>i<?n. card (window ?n horizon i) = 1)"
    using R by auto
  have F: "\<not> (\<exists>i<?n. card (window ?n horizon i) = 1) \<Longrightarrow>
      filter (\<lambda>i. \<exists>r. result_at ?t horizon i = Inr r \<and> threshold \<le> r) [0..<?n]
      = filter (\<lambda>i. threshold \<le>
                 (real (card {j \<in> window ?n horizon i. np_ge (?t ! j) (?t ! i)}) - 1)
                 / (real (card (window ?n horizon i)) - 1)) [0..<?n]"
    by (rule filter_cong) (auto simp: R)
  have "find_points g threshold horizon = find_points_loop ?t threshold horizon [0..<?n] []"
    using assms(2,3) by (simp add: find_points_def np_average_axis0_def)
  then show ?thesis
    unfolding find_points_loop_char E using F by simp
qed

lemma np_lt_not_ge: "np_lt x y \<Longrightarrow> \<not> np_ge x y"
  by (cases x; cases y) (auto simp: np_ge_def np_eq_def)

lemma np_lt_imp_ge: "np_lt x y \<Longrightarrow> np_ge y x"
  by (simp add: np_ge_def)

lemma np_lt_ge_refl: "np_lt x y \<Longrightarrow> np_ge x x \<and> np_ge y y"
  by (cases x; cases y) (auto simp: np_ge_def np_eq_def)

lemma window_card_ge2:
  assumes "1 \<le> horizon" and "2 \<le> n" and "i < n"
  shows "2 \<le> card (window n horizon i)"
proof -
  have h0: "0 \<le> horizon" using assms by simp
  have "nat (max 0 (int i - horizon)) + 2 \<le> nat (min (int n) (int i + horizon + 1))"
    using assms by linarith
  then show ?thesis
    unfolding window_atLeastLessThan [OF h0 assms(3)] card_atLeastLessThan by linarith
qed

lemma window_all:
  assumes "int n \<le> horizon" and "i < n"
  shows "window n horizon i = {j. j < n}"
  using assms by (auto simp: window_iff)

lemma np_sum_Fin_aux: "foldl np_add (Fin a) (map Fin xs) = Fin (a + sum_list xs)"
  by (induction xs arbitrary: a) (simp_all add: add.assoc)

lemma np_sum_Fin: "np_sum (map Fin xs) = Fin (sum_list xs)"
  by (simp add: np_sum_def np_sum_Fin_aux)

lemma column_map_nd_Fin:
  assumes "wf_ndarray r" and "j < shape1 r"
  shows "get_column (map_nd Fin r) j = map Fin (map (\<lambda>row. row ! j) (rows r))"
  using assms by (auto simp: get_column_def map_nd_def wf_ndarray_def list_all_iff)

lemma column_means_Fin:
  assumes "wf_ndarray r" and "0 < shape0 r" and "j < shape1 r"
  shows "column_means (map_nd Fin r) ! j
       = Fin ((\<Sum>i<shape0 r. rows r ! i ! j) / real (shape0 r))"
proof -
  have "sum_list (map (\<lambda>row. row ! j) (rows r)) = (\<Sum>i<shape0 r. rows r ! i ! j)"
    by (simp add: sum_list_sum_nth shape0_def atLeast0LessThan)
  moreover have "shape1 (map_nd Fin r) = shape1 r" "shape0 (map_nd Fin r) = shape0 r"
    by (simp_all add: map_nd_def shape0_def)
  moreover have "np_sum (get_column (map_nd Fin r) j) = Fin (sum_list (map (\<lambda>row. row ! j) (rows r)))"
    unfolding column_map_nd_Fin [OF assms(1,3)] by (rule np_sum_Fin)
  ultimately show ?thesis
    using assms by (simp add: column_means_def)
qed

text \<open>The equations that evaluate \<open>find_points\<close> on a concrete array.\<close>

lemmas find_points_eval =
  find_points_def np_average_axis0_def column_means_def get_column_def np_sum_def shape0_def
  result_at_def neighbors_at_def py_slice_def np_ge_def np_eq_def Let_def upt_rec

section \<open>Properties of the emphasis detector\<close>

text \<open>
  C2: for every strictly increasing energy curve and every horizon, \<open>find_points\<close> flags
  the last index of the curve at any threshold up to 1. The code does the opposite: it
  counts the neighbours that are at least the value at \<open>i\<close>, so on an increasing curve
  of two or more frames, with a horizon of one or more, the last index has quotient 0 and
  is left out at every positive threshold, while the first index has quotient 1 and is
  flagged at every threshold up to 1.
\<close>

theorem increasing_curve_flags_first_not_last:
  assumes g: "g_bins0 g = Some b"
    and inc: "sorted_wrt np_lt (column_means b)"
    and n: "2 \<le> shape1 b" and h: "1 \<le> horizon" and t: "0 < threshold"
  shows "\<exists>keep. find_points g threshold horizon = Inr keep
            \<and> shape1 b - 1 \<notin> set keep \<and> (threshold \<le> 1 \<longrightarrow> 0 \<in> set keep)"
proof -
  let ?t = "column_means b"
  let ?n = "shape1 b"
  have h0: "0 \<le> horizon" using h by simp
  have lt: "\<And>i j. i < j \<Longrightarrow> j < ?n \<Longrightarrow> np_lt (?t ! i) (?t ! j)"
    using inc by (simp add: sorted_wrt_iff_nth_less)
  have c2: "\<And>i. i < ?n \<Longrightarrow> 2 \<le> card (window ?n horizon i)"
    using window_card_ge2 [OF h n] .
  then have noerr: "\<not> (\<exists>i<?n. card (window ?n horizon i) = 1)" by fastforce
  have last_in: "?n - 1 \<in> window ?n horizon (?n - 1)"
    using n h0 by (simp add: window_iff)
  have "{j \<in> window ?n horizon (?n - 1). np_ge (?t ! j) (?t ! (?n - 1))} = {?n - 1}"
  proof (intro equalityI subsetI)
    fix j assume "j \<in> {j \<in> window ?n horizon (?n - 1). np_ge (?t ! j) (?t ! (?n - 1))}"
    then have j: "j < ?n" and ge: "np_ge (?t ! j) (?t ! (?n - 1))"
      by (simp_all add: window_iff)
    have "\<not> j < ?n - 1"
    proof
      assume "j < ?n - 1"
      then have "np_lt (?t ! j) (?t ! (?n - 1))" using lt n by simp
      with ge show False by (simp add: np_lt_not_ge)
    qed
    with j show "j \<in> {?n - 1}" by simp
  next
    fix j assume "j \<in> {?n - 1}"
    then have j: "j = ?n - 1" by simp
    have "np_lt (?t ! 0) (?t ! (?n - 1))" using lt [of 0 "?n - 1"] n by simp
    then have "np_ge (?t ! (?n - 1)) (?t ! (?n - 1))" by (simp add: np_lt_ge_refl)
    with last_in j show "j \<in> {j \<in> window ?n horizon (?n - 1). np_ge (?t ! j) (?t ! (?n - 1))}"
      by simp
  qed
  then have last0: "(real (card {j \<in> window ?n horizon (?n - 1). np_ge (?t ! j) (?t ! (?n - 1))}) - 1)
      / (real (card (window ?n horizon (?n - 1))) - 1) = 0"
    by simp
  have "{j \<in> window ?n horizon 0. np_ge (?t ! j) (?t ! 0)} = window ?n horizon 0"
  proof (intro equalityI subsetI)
    fix j assume jw: "j \<in> window ?n horizon 0"
    then have j: "j < ?n" by (simp add: window_iff)
    have "np_ge (?t ! j) (?t ! 0)"
    proof (cases "j = 0")
      case True
      have "np_lt (?t ! 0) (?t ! 1)" using lt [of 0 1] n by simp
      then show ?thesis using True by (simp add: np_lt_ge_refl)
    next
      case False
      then have "np_lt (?t ! 0) (?t ! j)" using lt [of 0 j] j by simp
      then show ?thesis by (rule np_lt_imp_ge)
    qed
    with jw show "j \<in> {j \<in> window ?n horizon 0. np_ge (?t ! j) (?t ! 0)}" by simp
  qed simp
  moreover have "2 \<le> card (window ?n horizon 0)" using c2 [of 0] n by simp
  ultimately have first1: "(real (card {j \<in> window ?n horizon 0. np_ge (?t ! j) (?t ! 0)}) - 1)
      / (real (card (window ?n horizon 0)) - 1) = 1"
    by simp
  define frac where "frac i = (real (card {j \<in> window ?n horizon i. np_ge (?t ! j) (?t ! i)}) - 1)
                 / (real (card (window ?n horizon i)) - 1)" for i
  have fp: "find_points g threshold horizon = Inr (filter (\<lambda>i. threshold \<le> frac i) [0..<?n])"
    using find_points_char [OF h0 g, of threshold] n noerr unfolding frac_def by simp
  have "frac (?n - 1) = 0" unfolding frac_def by (rule last0)
  then have a: "?n - 1 \<notin> set (filter (\<lambda>i. threshold \<le> frac i) [0..<?n])"
    using t by simp
  have "frac 0 = 1" unfolding frac_def by (rule first1)
  then have b: "threshold \<le> 1 \<longrightarrow> 0 \<in> set (filter (\<lambda>i. threshold \<le> frac i) [0..<?n])"
    using n by simp
  show ?thesis
    unfolding fp using a b by blast
qed

theorem increasing_curve_flags_first_not_last_witness:
  "g_bins0 (module_with ramp3) = Some ramp3
   \<and> sorted_wrt np_lt (column_means ramp3)
   \<and> 2 \<le> shape1 ramp3 \<and> (1::int) \<le> 7 \<and> (0::real) < 27 / 30
   \<and> (\<exists>keep. find_points (module_with ramp3) (27 / 30) 7 = Inr keep
          \<and> 2 \<notin> set keep \<and> 0 \<in> set keep)"
proof -
  have g: "g_bins0 (module_with ramp3) = Some ramp3"
    by simp
  have inc: "sorted_wrt np_lt (column_means ramp3)"
    by (simp add: column_means_def get_column_def np_sum_def shape0_def upt_rec)
  have n: "2 \<le> shape1 ramp3"
    by simp
  have h: "(1::int) \<le> 7" and t: "(0::real) < 27 / 30"
    by simp_all
  show ?thesis
    using g inc n h t increasing_curve_flags_first_not_last [OF g inc n h t] by auto
qed

text \<open>
  C3: for every frame \<open>i\<close>, the detector computes, over the window \<open>[i-horizon, i+horizon]\<close>
  clipped to the array bounds, the fraction of neighbours including self whose value is
  at least the value at \<open>i\<close>, and flags \<open>i\<close> exactly when that fraction meets the threshold.
  As stated this fails: on the curve \<open>[1, 2]\<close> with horizon 1 the fraction with self
  included is \<open>1/2\<close> at frame 1, and frame 1 is not flagged at threshold \<open>1/2\<close>.
\<close>

theorem fraction_including_self_counterexample:
  "find_points (module_with ramp2) (1 / 2) 1 = Inr [0]
   \<and> 1 / 2 \<le> claimed_fraction (column_means ramp2) 1 1"
  by (simp add: find_points_eval claimed_fraction_def)

text \<open>
  C3 as amended: on a curve of at least one frame and for a horizon that is not negative,
  the code leaves frame \<open>i\<close> itself out of both counts. It divides the number of the other
  frames of the clipped window whose value is at least the value at \<open>i\<close> by the number of
  the other frames of the window, and flags \<open>i\<close> exactly when this quotient meets the
  threshold; when some window holds frame \<open>i\<close> alone, the division raises
  ZeroDivisionError and nothing is returned.
\<close>

theorem find_points_flags_by_fraction_of_others:
  assumes "0 \<le> horizon" and "g_bins0 g = Some b" and "0 < shape1 b"
  shows "case find_points g threshold horizon of
           Inl e \<Rightarrow> e = ZeroDivisionError \<and> (\<exists>i<shape1 b. card (window (shape1 b) horizon i) = 1)
         | Inr keep \<Rightarrow>
             (\<forall>i<shape1 b. card (window (shape1 b) horizon i) \<noteq> 1)
             \<and> (\<forall>i. i \<in> set keep \<longleftrightarrow>
                    i < shape1 b \<and>
                    threshold \<le>
                      (real (card {j \<in> window (shape1 b) horizon i.
                               np_ge (column_means b ! j) (column_means b ! i)}) - 1)
                      / (real (card (window (shape1 b) horizon i)) - 1))"
  unfolding find_points_char [OF assms] by auto

theorem find_points_flags_by_fraction_of_others_witness:
  "(0::int) \<le> 1 \<and> g_bins0 (module_with ramp2) = Some ramp2
   \<and> 0 < shape1 ramp2
   \<and> (case find_points (module_with ramp2) (1 / 2) 1 of
           Inl e \<Rightarrow> e = ZeroDivisionError
              \<and> (\<exists>i<shape1 ramp2. card (window (shape1 ramp2) 1 i) = 1)
         | Inr keep \<Rightarrow>
             (\<forall>i<shape1 ramp2. card (window (shape1 ramp2) 1 i) \<noteq> 1)
             \<and> (\<forall>i. i \<in> set keep \<longleftrightarrow>
                    i < shape1 ramp2 \<and>
                    1 / 2 \<le>
                      (real (card {j \<in> window (shape1 ramp2) 1 i.
                               np_ge (column_means ramp2 ! j)
                                     (column_means ramp2 ! i)}) - 1)
                      / (real (card (window (shape1 ramp2) 1 i)) - 1)))"
proof -
  have h: "(0::int) \<le> 1" by simp
  have g: "g_bins0 (module_with ramp2) = Some ramp2"
    by simp
  have p: "0 < shape1 ramp2" by simp
  show ?thesis
    using h g p find_points_flags_by_fraction_of_others [OF h g p, of "1 / 2"] by blast
qed

text \<open>
  C7: \<open>find_points\<close> takes only the threshold and the horizon, and reads the module-level
  \<open>bins0\<close> for its data: the curve it scans has one value per frame, the arithmetic mean
  of that frame over the bands, and its result is the same in any two module states that
  bind \<open>bins0\<close> to the same array. Here \<open>bins0\<close> is an array of finite values with at least
  one band and one frame.
\<close>

theorem find_points_reads_module_bins0:
  assumes "g_bins0 g = Some (map_nd Fin r)" and "wf_ndarray r" and "0 < shape0 r"
    and "0 < shape1 r"
  shows "find_points g threshold horizon
           = find_points_loop (column_means (map_nd Fin r)) threshold horizon [0..<shape1 r] []
       \<and> length (column_means (map_nd Fin r)) = shape1 r
       \<and> (\<forall>j<shape1 r. column_means (map_nd Fin r) ! j
                          = Fin ((\<Sum>i<shape0 r. rows r ! i ! j) / real (shape0 r)))
       \<and> (\<forall>g'. g_bins0 g' = g_bins0 g \<longrightarrow>
                 find_points g' threshold horizon = find_points g threshold horizon)"
proof -
  have s: "shape1 (map_nd Fin r) = shape1 r" by (simp add: map_nd_def)
  have "find_points g threshold horizon
           = find_points_loop (column_means (map_nd Fin r)) threshold horizon [0..<shape1 r] []"
    using assms(1,4) by (simp add: find_points_def np_average_axis0_def s)
  moreover have "length (column_means (map_nd Fin r)) = shape1 r"
    by (simp add: s)
  moreover have "\<forall>j<shape1 r. column_means (map_nd Fin r) ! j
                          = Fin ((\<Sum>i<shape0 r. rows r ! i ! j) / real (shape0 r))"
    using column_means_Fin [OF assms(2,3)] by blast
  moreover have "\<forall>g'. g_bins0 g' = g_bins0 g \<longrightarrow>
                 find_points g' threshold horizon = find_points g threshold horizon"
    by (simp add: find_points_def)
  ultimately show ?thesis by blast
qed

theorem find_points_reads_module_bins0_witness:
  "g_bins0 \<lparr>g_bins0 = Some (map_nd Fin (NDArray 2 [[1, 3], [3, 5]])), g_bins1 = None\<rparr>
       = Some (map_nd Fin (NDArray 2 [[1, 3], [3, 5]]))
   \<and> wf_ndarray (NDArray 2 [[1, 3], [3, 5 :: real]])
   \<and> 0 < shape0 (NDArray 2 [[1, 3], [3, 5 :: real]])
   \<and> 0 < shape1 (NDArray 2 [[1, 3], [3, 5 :: real]])
   \<and> column_means (map_nd Fin (NDArray 2 [[1, 3], [3, 5]])) ! 1
        = Fin ((\<Sum>i<shape0 (NDArray 2 [[1, 3], [3, 5 :: real]]). rows (NDArray 2 [[1, 3], [3, 5]]) ! i ! 1)
               / real (shape0 (NDArray 2 [[1, 3], [3, 5 :: real]])))"
proof -
  have g: "g_bins0 \<lparr>g_bins0 = Some (map_nd Fin (NDArray 2 [[1, 3], [3, 5]])), g_bins1 = None\<rparr>
       = Some (map_nd Fin (NDArray 2 [[1, 3], [3, 5]]))"
    by simp
  have w: "wf_ndarray (NDArray 2 [[1, 3], [3, 5 :: real]])"
    by (simp add: wf_ndarray_def)
  have p: "0 < shape0 (NDArray 2 [[1, 3], [3, 5 :: real]])"
    by (simp add: shape0_def)
  have q: "0 < shape1 (NDArray 2 [[1, 3], [3, 5 :: real]])" by simp
  have "(1::nat) < shape1 (NDArray 2 [[1, 3], [3, 5 :: real]])" by simp
  then show ?thesis
    using g w p q find_points_reads_module_bins0 [OF g w p q, of 0 0] by blast
qed

text \<open>
  C9: for every energy curve and every horizon that is at least the length of the curve,
  \<open>find_points\<close> fails with a ValueError. As stated this fails: on the two-frame curve
  \<open>[1, 2]\<close> with horizon 5 and the threshold \<open>27/30\<close> of the program it returns \<open>[0]\<close>.
\<close>

theorem wide_horizon_counterexample:
  "int (length (column_means ramp2)) \<le> 5
   \<and> find_points (module_with ramp2) (27 / 30) 5 = Inr [0]"
  by (simp add: find_points_eval)

text \<open>
  C9 as amended: the code does not check the horizon. On a curve of at least one frame,
  with a horizon at least the length of the curve, every window is the whole curve, and
  \<open>find_points\<close> returns the frames whose quotient over the other frames meets the
  threshold; the only failure is the ZeroDivisionError of a curve with exactly one frame.
\<close>

theorem find_points_wide_horizon:
  assumes g: "g_bins0 g = Some b" and p: "0 < shape1 b" and h: "int (shape1 b) \<le> horizon"
  shows "find_points g threshold horizon =
     (if shape1 b = 1 then Inl ZeroDivisionError
      else Inr (filter (\<lambda>i. threshold \<le>
                  (real (card {j. j < shape1 b \<and> np_ge (column_means b ! j) (column_means b ! i)}) - 1)
                  / (real (shape1 b) - 1)) [0..<shape1 b]))"
proof -
  let ?t = "column_means b"
  let ?n = "shape1 b"
  have h0: "0 \<le> horizon" using h by linarith
  have W: "\<And>i. i < ?n \<Longrightarrow> window ?n horizon i = {j. j < ?n}"
    using window_all [OF h] .
  have C: "\<And>i. i < ?n \<Longrightarrow> card (window ?n horizon i) = ?n"
    by (simp add: W)
  have E: "(\<exists>i<?n. card (window ?n horizon i) = 1) \<longleftrightarrow> ?n = 1"
    using C by auto
  have F: "filter (\<lambda>i. threshold \<le>
                 (real (card {j \<in> window ?n horizon i. np_ge (?t ! j) (?t ! i)}) - 1)
                 / (real (card (window ?n horizon i)) - 1)) [0..<?n]
     = filter (\<lambda>i. threshold \<le>
                  (real (card {j. j < ?n \<and> np_ge (?t ! j) (?t ! i)}) - 1)
                  / (real ?n - 1)) [0..<?n]"
    by (rule filter_cong) (simp_all add: W)
  show ?thesis
    unfolding find_points_char [OF h0 g p] E F by simp
qed

theorem find_points_wide_horizon_witness:
  "g_bins0 (module_with ramp2) = Some ramp2
   \<and> 0 < shape1 ramp2
   \<and> int (shape1 ramp2) \<le> 5
   \<and> find_points (module_with ramp2) (27 / 30) 5 =
     (if shape1 ramp2 = 1 then Inl ZeroDivisionError
      else Inr (filter (\<lambda>i. 27 / 30 \<le>
                  (real (card {j. j < shape1 ramp2
                               \<and> np_ge (column_means ramp2 ! j)
                                       (column_means ramp2 ! i)}) - 1)
                  / (real (shape1 ramp2) - 1))
                [0..<shape1 ramp2]))"
proof -
  have g: "g_bins0 (module_with ramp2) = Some ramp2"
    by simp
  have h: "int (shape1 ramp2) \<le> 5"
    by simp
  have p: "0 < shape1 ramp2"
    by simp
  show ?thesis
    using g p h find_points_wide_horizon [OF g p h, of "27 / 30"] by blast
qed

section \<open>Rounding to binary64\<close>

lemma round_half_even_bound: "\<bar>of_int (round_half_even y) - y\<bar> \<le> 1 / 2"
  unfolding round_half_even_def Let_def by (auto simp: abs_le_iff; linarith)

lemma round_half_even_of_int [simp]: "round_half_even (of_int n) = n"
  by (simp add: round_half_even_def)

lemma two_powi_less_imp: "(2::real) powi m < 2 powi n \<Longrightarrow> m < n"
proof (rule ccontr)
  assume a: "(2::real) powi m < 2 powi n" and "\<not> m < n"
  then have "n \<le> m" by simp
  then have "(2::real) powi n \<le> 2 powi m" by (rule power_int_increasing) simp
  with a show False by simp
qed

lemma two_powi_grid:
  assumes "- 1074 \<le> e"
  shows "(2::real) powi e = 2 ^ nat (e + 1074) * 2 powi (- 1074)"
proof -
  have "e = int (nat (e + 1074)) + (- 1074)" using assms by simp
  then have "(2::real) powi e = 2 powi (int (nat (e + 1074))) * 2 powi (- 1074)"
    by (metis power_int_add zero_neq_numeral)
  then show ?thesis by (simp only: power_int_of_nat)
qed

lemma floor_log2_bounds:
  assumes "x \<noteq> 0"
  shows "2 powi \<lfloor>log 2 \<bar>x\<bar>\<rfloor> \<le> \<bar>x\<bar>" and "\<bar>x\<bar> < 2 powi (\<lfloor>log 2 \<bar>x\<bar>\<rfloor> + 1)"
proof -
  have p: "0 < \<bar>x\<bar>" using assms by simp
  have "2 powr \<lfloor>log 2 \<bar>x\<bar>\<rfloor> \<le> \<bar>x\<bar> \<and> \<bar>x\<bar> < 2 powr (\<lfloor>log 2 \<bar>x\<bar>\<rfloor> + 1)"
    using floor_log_eq_powr_iff [OF p, of 2 "\<lfloor>log 2 \<bar>x\<bar>\<rfloor>"] by simp
  then show "2 powi \<lfloor>log 2 \<bar>x\<bar>\<rfloor> \<le> \<bar>x\<bar>" and "\<bar>x\<bar> < 2 powi (\<lfloor>log 2 \<bar>x\<bar>\<rfloor> + 1)"
    using powr_real_of_int' [of 2 "\<lfloor>log 2 \<bar>x\<bar>\<rfloor>"] powr_real_of_int' [of 2 "\<lfloor>log 2 \<bar>x\<bar>\<rfloor> + 1"]
    by simp_all
qed

lemma floor_log2_eqI:
  assumes "2 powi k \<le> \<bar>x\<bar>" and "\<bar>x\<bar> < 2 powi (k + 1)"
  shows "\<lfloor>log 2 \<bar>x\<bar>\<rfloor> = k"
proof -
  have p: "0 < \<bar>x\<bar>" using assms(1) zero_less_power_int [of "2::real" k] by linarith
  have "2 powr k \<le> \<bar>x\<bar> \<and> \<bar>x\<bar> < 2 powr (k + 1)"
    using assms powr_real_of_int' [of 2 k] powr_real_of_int' [of 2 "k + 1"] by simp
  then show ?thesis
    using floor_log_eq_powr_iff [OF p, of 2 k] by simp
qed

lemma f64_quantum_pos [simp]: "0 < f64_quantum x"
  by (simp add: f64_quantum_def)

text \<open>
  How \<open>f64_round\<close> is evaluated: from the binade \<open>k\<close> of \<open>x\<close> and the rounded multiple
  \<open>n\<close> of the spacing.
\<close>

lemma f64_roundI:
  assumes "2 powi k \<le> \<bar>x\<bar>" and "\<bar>x\<bar> < 2 powi (k + 1)"
    and "q = 2 powi (max (k - 52) (- 1074))"
    and "round_half_even (x / q) = n"
    and "\<bar>of_int n * q\<bar> < 2 ^ 1024"
  shows "f64_round x = Fin (of_int n * q)"
proof -
  have "0 < \<bar>x\<bar>" using assms(1) zero_less_power_int [of "2::real" k] by linarith
  then have x: "x \<noteq> 0" by simp
  have "f64_quantum x = q"
    unfolding f64_quantum_def floor_log2_eqI [OF assms(1,2)] assms(3) ..
  then show ?thesis
    using x assms(4,5) by (simp add: f64_round_def Let_def)
qed

lemma f64_candidate_error:
  "\<bar>of_int (round_half_even (x / f64_quantum x)) * f64_quantum x - x\<bar> \<le> f64_quantum x / 2"
proof -
  let ?q = "f64_quantum x"
  let ?n = "round_half_even (x / ?q)"
  have q: "?q \<noteq> 0" by (metis f64_quantum_pos less_irrefl)
  have "\<bar>of_int ?n - x / ?q\<bar> \<le> 1 / 2" by (rule round_half_even_bound)
  then have "\<bar>of_int ?n - x / ?q\<bar> * ?q \<le> 1 / 2 * ?q"
    by (rule mult_right_mono) (simp add: less_imp_le)
  moreover have "\<bar>of_int ?n - x / ?q\<bar> * ?q = \<bar>of_int ?n * ?q - x\<bar>"
  proof -
    have "\<bar>of_int ?n - x / ?q\<bar> * ?q = \<bar>(of_int ?n - x / ?q) * ?q\<bar>"
      by (simp add: abs_mult less_imp_le)
    also have "(of_int ?n - x / ?q) * ?q = of_int ?n * ?q - x"
      using q by (simp add: left_diff_distrib)
    finally show ?thesis .
  qed
  ultimately show ?thesis by simp
qed

lemma f64_round_error:
  assumes "f64_round x = Fin y"
  shows "\<bar>y - x\<bar> \<le> f64_quantum x / 2"
proof (cases "x = 0")
  case True
  with assms have "y = 0" by (simp add: f64_round_def)
  with True show ?thesis using less_imp_le [OF f64_quantum_pos [of 0]] by simp
next
  case False
  have "y = of_int (round_half_even (x / f64_quantum x)) * f64_quantum x"
    using assms False by (simp add: f64_round_def Let_def split: if_splits)
  then show ?thesis using f64_candidate_error [of x] by simp
qed

lemma f64_quantum_normal:
  assumes "2 powi (- 1022) \<le> \<bar>x\<bar>"
  shows "f64_quantum x \<le> \<bar>x\<bar> / 2 ^ 52"
proof -
  have x: "x \<noteq> 0" using assms zero_less_power_int [of "2::real" "- 1022"] by auto
  let ?k = "\<lfloor>log 2 \<bar>x\<bar>\<rfloor>"
  have "(2::real) powi (- 1022) < 2 powi (?k + 1)"
    using assms floor_log2_bounds(2) [OF x] by linarith
  then have "- 1022 < ?k + 1"
    by (rule two_powi_less_imp)
  then have "max (?k - 52) (- 1074) = ?k - 52" by linarith
  then have "f64_quantum x = 2 powi ?k / 2 ^ 52"
    by (simp add: f64_quantum_def power_int_diff)
  with floor_log2_bounds(1) [OF x] show ?thesis
    by (simp add: divide_right_mono)
qed

lemma f64_quantum_subnormal:
  assumes "x \<noteq> 0" and "\<bar>x\<bar> < 2 powi (- 1022)"
  shows "f64_quantum x = 2 powi (- 1074)"
proof -
  let ?k = "\<lfloor>log 2 \<bar>x\<bar>\<rfloor>"
  have "(2::real) powi ?k < 2 powi (- 1022)"
    using assms(2) floor_log2_bounds(1) [OF assms(1)] by linarith
  then have "?k < - 1022"
    by (rule two_powi_less_imp)
  then have "max (?k - 52) (- 1074) = - 1074" by linarith
  then show ?thesis by (simp only: f64_quantum_def)
qed

lemma f64_quantum_cases:
  assumes "x \<noteq> 0"
  shows "f64_quantum x \<le> \<bar>x\<bar> / 2 ^ 52 \<or> f64_quantum x = 2 powi (- 1074)"
proof (cases "2 powi (- 1022) \<le> \<bar>x\<bar>")
  case True
  then show ?thesis using f64_quantum_normal by blast
next
  case False
  then have "\<bar>x\<bar> < 2 powi (- 1022)" by simp
  from f64_quantum_subnormal [OF assms this] show ?thesis by blast
qed

text \<open>
  The error of one rounding: at most \<open>2^(-53)\<close> of the value in the normal range, and at
  most \<open>2^(-1075)\<close> below it; a value of magnitude at most 2 does not overflow.
\<close>

lemma f64_round_normal:
  assumes "f64_round x = Fin y" and "2 powi (- 1022) \<le> \<bar>x\<bar>"
  shows "\<bar>y - x\<bar> \<le> \<bar>x\<bar> / 2 ^ 53"
proof -
  have "f64_quantum x / 2 \<le> \<bar>x\<bar> / 2 ^ 52 / 2"
    using f64_quantum_normal [OF assms(2)] by (rule divide_right_mono) simp
  also have "\<bar>x\<bar> / 2 ^ 52 / 2 = \<bar>x\<bar> / 2 ^ 53" by simp
  finally show ?thesis using f64_round_error [OF assms(1)] by linarith
qed

lemma f64_round_small:
  assumes "\<bar>x\<bar> \<le> 2"
  shows "\<exists>y. f64_round x = Fin y \<and> \<bar>y - x\<bar> \<le> \<bar>x\<bar> / 2 ^ 53 + 2 powi (- 1075)"
proof (cases "x = 0")
  case True
  then show ?thesis by (simp add: f64_round_def less_imp_le)
next
  case False
  let ?q = "f64_quantum x"
  let ?y = "of_int (round_half_even (x / ?q)) * ?q"
  have p: "(0::real) \<le> 2 powi (- 1075)" by (simp add: less_imp_le)
  have half: "?q / 2 \<le> \<bar>x\<bar> / 2 ^ 53 + 2 powi (- 1075)"
    using f64_quantum_cases [OF False]
  proof
    assume "?q \<le> \<bar>x\<bar> / 2 ^ 52"
    then have "?q / 2 \<le> \<bar>x\<bar> / 2 ^ 52 / 2" by (rule divide_right_mono) simp
    also have "\<bar>x\<bar> / 2 ^ 52 / 2 = \<bar>x\<bar> / 2 ^ 53" by simp
    finally show ?thesis using p by linarith
  next
    assume "?q = 2 powi (- 1074)"
    then have "?q / 2 = 2 powi (- 1075)" by (simp add: power_int_minus)
    moreover have "0 \<le> \<bar>x\<bar> / 2 ^ 53" by simp
    ultimately show ?thesis by linarith
  qed
  have err: "\<bar>?y - x\<bar> \<le> ?q / 2" by (rule f64_candidate_error)
  have "\<bar>x\<bar> / 2 ^ 53 + 2 powi (- 1075) \<le> (1::real)"
  proof -
    have "\<bar>x\<bar> / 2 ^ 53 \<le> 2 / 2 ^ 53" using assms by (simp add: divide_right_mono)
    moreover have "(2::real) powi (- 1075) \<le> 1 / 2" by (simp add: power_int_minus)
    ultimately show ?thesis by simp
  qed
  with err half have "\<bar>?y\<bar> \<le> 3" using assms by linarith
  then have "\<not> 2 ^ 1024 \<le> \<bar>?y\<bar>" by simp
  then have "f64_round x = Fin ?y" using False by (simp add: f64_round_def Let_def)
  with err half show ?thesis by auto
qed

lemma f64_round_small_nonneg:
  assumes "0 \<le> x" and "x \<le> 2"
  shows "\<exists>y. f64_round x = Fin y \<and> \<bar>y - x\<bar> \<le> x * (1 / 2 ^ 53) + 2 powi (- 1075)"
proof -
  have "\<bar>x\<bar> \<le> 2" "\<bar>x\<bar> = x" using assms by simp_all
  with f64_round_small [of x] show ?thesis by (simp only: times_divide_eq_right mult_1_right)
qed

text \<open>
  Every binary64 value is a multiple of \<open>2^(-1074)\<close>, and such a multiple in the subnormal
  range is a binary64 value: the sum of two positive values is exact there.
\<close>

lemma f64_grid:
  assumes "is_f64 x"
  shows "\<exists>N. x = of_int N * 2 powi (- 1074)"
proof (cases "x = 0")
  case True
  then show ?thesis by (intro exI [of _ 0]) simp
next
  case False
  let ?e = "max (\<lfloor>log 2 \<bar>x\<bar>\<rfloor> - 52) (- 1074)"
  let ?n = "round_half_even (x / f64_quantum x)"
  have "x = of_int ?n * f64_quantum x"
    using assms False by (simp add: is_f64_def f64_round_def Let_def split: if_splits)
  moreover have "f64_quantum x = 2 ^ nat (?e + 1074) * 2 powi (- 1074)"
    unfolding f64_quantum_def by (rule two_powi_grid) simp
  ultimately have "x = of_int (?n * 2 ^ nat (?e + 1074)) * 2 powi (- 1074)"
    by (simp only: of_int_mult of_int_power of_int_numeral mult.assoc)
  then show ?thesis by blast
qed

lemma f64_round_grid_exact:
  assumes "x = of_int N * 2 powi (- 1074)" and "\<bar>x\<bar> < 2 powi (- 1022)"
  shows "f64_round x = Fin x"
proof (cases "x = 0")
  case True
  then show ?thesis by (simp add: f64_round_def)
next
  case False
  define g :: real where "g = 2 powi (- 1074)"
  have g: "g \<noteq> 0" by (simp add: g_def)
  have q: "f64_quantum x = g"
    unfolding g_def using False assms(2) by (rule f64_quantum_subnormal)
  have xg: "x = of_int N * g" using assms(1) by (simp only: g_def)
  have "x / g = of_int N" unfolding xg using g by simp
  then have "of_int (round_half_even (x / f64_quantum x)) * f64_quantum x = x"
    unfolding q using xg by simp
  moreover have "\<bar>x\<bar> < 2 ^ 1024"
  proof -
    have "(2::real) powi (- 1022) \<le> 1" by (simp add: power_int_minus)
    with assms(2) show ?thesis by simp
  qed
  ultimately show ?thesis using False by (simp add: f64_round_def Let_def)
qed

lemma f64_add_pos:
  assumes "is_f64 a" and "is_f64 b" and "0 < a" and "0 < b"
    and "f64_add (Fin a) (Fin b) \<noteq> PInf"
  shows "\<exists>S. f64_add (Fin a) (Fin b) = Fin S \<and> \<bar>S - (a + b)\<bar> \<le> (a + b) / 2 ^ 53"
proof -
  have pos: "0 < a + b" using assms(3,4) by simp
  then obtain S where S: "f64_round (a + b) = Fin S"
    using assms(5) by (auto simp: f64_round_def Let_def split: if_splits)
  have "\<bar>S - (a + b)\<bar> \<le> (a + b) / 2 ^ 53"
  proof (cases "2 powi (- 1022) \<le> \<bar>a + b\<bar>")
    case True
    from f64_round_normal [OF S True] pos show ?thesis by simp
  next
    case False
    then have small: "\<bar>a + b\<bar> < 2 powi (- 1022)" by simp
    obtain N M where "a = of_int N * 2 powi (- 1074)" "b = of_int M * 2 powi (- 1074)"
      using f64_grid [OF assms(1)] f64_grid [OF assms(2)] by blast
    then have "a + b = of_int (N + M) * 2 powi (- 1074)"
      by (simp add: distrib_right)
    from f64_round_grid_exact [OF this small] S have "S = a + b" by simp
    with pos show ?thesis by simp
  qed
  with S show ?thesis by simp
qed

text \<open>Roundings of concrete values.\<close>

lemma f64_round_one: "f64_round 1 = Fin 1"
  using f64_roundI [of 0 1 "2 powi (- 52)" 4503599627370496]
  by (simp add: round_half_even_def power_int_minus)

lemma f64_round_two: "f64_round 2 = Fin 2"
  using f64_roundI [of 1 2 "2 powi (- 51)" 4503599627370496]
  by (simp add: round_half_even_def power_int_minus)

lemma f64_round_three: "f64_round 3 = Fin 3"
  using f64_roundI [of 1 3 "2 powi (- 51)" 6755399441055744]
  by (simp add: round_half_even_def power_int_minus)

lemma f64_round_four: "f64_round 4 = Fin 4"
  using f64_roundI [of 2 4 "2 powi (- 50)" 4503599627370496]
  by (simp add: round_half_even_def power_int_minus)

lemma f64_round_half: "f64_round (1 / 2) = Fin (1 / 2)"
  using f64_roundI [of "- 1" "1 / 2" "2 powi (- 53)" 4503599627370496]
  by (simp add: round_half_even_def power_int_minus)

lemma ratio_one_one: "ratio (Fin 1) (Fin 1) = Fin (1 / 2)"
  by (simp add: ratio_def f64_round_two f64_round_half)

lemma f64_tenth: "f64_round tenth = Fin tenth"
  using f64_roundI [of "- 4" tenth "2 powi (- 56)" 7205759403792794]
  by (simp add: round_half_even_def power_int_minus)

lemma f64_three_tenths: "f64_round three_tenths = Fin three_tenths"
  using f64_roundI [of "- 2" three_tenths "2 powi (- 54)" 5404319552844595]
  by (simp add: round_half_even_def power_int_minus)

lemma f64_tenths_sum: "f64_round (tenth + three_tenths) = Fin (7205759403792794 / 2 ^ 54)"
  using f64_roundI [of "- 2" "tenth + three_tenths" "2 powi (- 54)" 7205759403792794]
  by (simp add: round_half_even_def power_int_minus)

lemma f64_tenths_quotient1:
  "f64_round (three_tenths / (7205759403792794 / 2 ^ 54)) = Fin (6755399441055743 / 2 ^ 53)"
  using f64_roundI [of "- 1" "three_tenths / (7205759403792794 / 2 ^ 54)" "2 powi (- 53)"
      6755399441055743]
  by (simp add: round_half_even_def power_int_minus)

lemma f64_tenths_quotient2: "f64_round (tenth / (7205759403792794 / 2 ^ 54)) = Fin (1 / 4)"
  using f64_roundI [of "- 2" "tenth / (7205759403792794 / 2 ^ 54)" "2 powi (- 54)"
      4503599627370496]
  by (simp add: round_half_even_def power_int_minus)

lemma f64_tenths_total: "f64_round (6755399441055743 / 2 ^ 53 + 1 / 4) = Fin (1 - 1 / 2 ^ 53)"
  using f64_roundI [of "- 1" "6755399441055743 / 2 ^ 53 + 1 / 4" "2 powi (- 53)"
      9007199254740991]
  by (simp add: round_half_even_def power_int_minus)

text \<open>
  Where the sum overflows the ratio is 0: for \<open>a = b = 2^1023\<close> the two ratios add up to
  0, which is why the sum is required to be finite below.
\<close>

lemma f64_round_overflow: "f64_round (2 ^ 1023 + 2 ^ 1023) = PInf"
proof -
  define x :: real where "x = 2 ^ 1023 + 2 ^ 1023"
  have x0: "0 < x" and xn: "x \<noteq> 0" by (simp_all add: x_def)
  have "2 powi 1024 \<le> \<bar>x\<bar>" and "\<bar>x\<bar> < 2 powi (1024 + 1)"
    by (simp_all add: x_def)
  then have k: "\<lfloor>log 2 \<bar>x\<bar>\<rfloor> = 1024"
    by (rule floor_log2_eqI)
  have q: "f64_quantum x = 2 ^ 972"
    unfolding f64_quantum_def k by simp
  have "x / 2 ^ 972 = of_int (2 ^ 52)" by (simp add: x_def)
  then have n: "round_half_even (x / 2 ^ 972) = 2 ^ 52"
    by (simp only: round_half_even_of_int)
  have "(2::real) ^ 1024 \<le> \<bar>of_int (2 ^ 52) * 2 ^ 972\<bar>" by simp
  then have "f64_round x = PInf"
    unfolding f64_round_def Let_def q n using x0 xn by (simp only: if_True if_False)
  then show ?thesis by (simp only: x_def)
qed

lemma f64_round_2_1023: "f64_round (2 ^ 1023) = Fin (2 ^ 1023)"
  using f64_roundI [of 1023 "2 ^ 1023" "2 powi 971" "2 ^ 52"]
  by (simp add: round_half_even_def)

lemma ratio_overflow:
  "is_f64 (2 ^ 1023) \<and> ratio (Fin (2 ^ 1023)) (Fin (2 ^ 1023)) = Fin 0"
  using f64_round_overflow f64_round_2_1023
  by (simp add: is_f64_def ratio_def)

section \<open>Properties of the balance point\<close>

text \<open>
  C5: for all positive real \<open>a\<close> and \<open>b\<close>, \<open>ratio(a,b) + ratio(b,a) = 1\<close>, and for all
  positive \<open>a\<close>, \<open>ratio(a,0) = 0\<close>. As stated the first part fails on the code, which
  computes in \<open>float64\<close>: for the values Python writes \<open>0.1\<close> and \<open>0.3\<close> the sum of the
  two ratios is \<open>1 - 2^(-53)\<close>, printed \<open>0.9999999999999999\<close>.
\<close>

theorem ratio_sum_rounding_counterexample:
  "is_f64 tenth \<and> is_f64 three_tenths \<and> 0 < tenth \<and> 0 < three_tenths
   \<and> f64_add (ratio (Fin tenth) (Fin three_tenths)) (ratio (Fin three_tenths) (Fin tenth))
       = Fin (1 - 1 / 2 ^ 53)
   \<and> Fin (1 - 1 / 2 ^ 53) \<noteq> Fin 1"
  using f64_tenth f64_three_tenths f64_tenths_sum f64_tenths_quotient1 f64_tenths_quotient2
    f64_tenths_total
  by (simp add: is_f64_def ratio_def add.commute)

text \<open>
  C5 as amended: for all positive \<open>float64\<close> values \<open>a\<close> and \<open>b\<close> whose sum does not
  overflow, \<open>ratio(a,b) + ratio(b,a)\<close> is a finite value within \<open>2^(-51)\<close> of 1, and for
  all positive \<open>a\<close>, \<open>ratio(a,0)\<close> is exactly 0.
\<close>

theorem ratio_sum_within_rounding:
  assumes a: "is_f64 a" and b: "is_f64 b" and a0: "0 < a" and b0: "0 < b"
    and fin: "f64_add (Fin a) (Fin b) \<noteq> PInf"
  shows "(\<exists>T. f64_add (ratio (Fin a) (Fin b)) (ratio (Fin b) (Fin a)) = Fin T
             \<and> \<bar>T - 1\<bar> \<le> 1 / 2 ^ 51)
       \<and> ratio (Fin a) (Fin 0) = Fin 0"
proof -
  define u :: real where "u = 1 / 2 ^ 53"
  define h :: real where "h = 2 powi (- 1075)"
  have u0: "0 < u" and u1: "u < 1" by (simp_all add: u_def)
  have N0: "1 / (1 - u) \<le> 2" by (simp add: u_def)
  have N1: "(1 + u) * (1 / (1 - u)) + 2 * h \<le> 1 + 5 / 2 * u"
    by (simp add: u_def h_def power_int_minus)
  have N2: "1 - 5 / 2 * u \<le> (1 - u) * (1 / (1 + u)) - 2 * h"
    by (simp add: u_def h_def power_int_minus)
  have N3: "(1 + 5 / 2 * u) * u + 5 / 2 * u \<le> 1 / 2 ^ 51"
    by (simp add: u_def)
  have N4: "2 powi (- 1022) \<le> 1 - 5 / 2 * u"
    by (simp add: u_def power_int_minus)
  have N5: "1 + 5 / 2 * u \<le> 2" by (simp add: u_def)
  let ?s = "a + b"
  have s0: "0 < ?s" using a0 b0 by simp
  obtain S where S: "f64_add (Fin a) (Fin b) = Fin S" and Se: "\<bar>S - ?s\<bar> \<le> ?s * u"
    using f64_add_pos [OF a b a0 b0 fin] by (auto simp: u_def)
  have S': "f64_add (Fin b) (Fin a) = Fin S" using S by (simp add: add.commute)
  have lo: "?s * (1 - u) \<le> S" and hi: "S \<le> ?s * (1 + u)"
    using Se by (simp_all add: abs_le_iff algebra_simps)
  have "0 < ?s * (1 - u)" using s0 u1 by simp
  with lo have Spos: "0 < S" by linarith
  define t where "t = ?s / S"
  have t_hi: "t \<le> 1 / (1 - u)"
  proof -
    have "?s \<le> S / (1 - u)" using lo u1 by (simp add: pos_le_divide_eq)
    then have "?s \<le> 1 / (1 - u) * S" by simp
    then show ?thesis unfolding t_def using Spos by (simp only: pos_divide_le_eq)
  qed
  have t_lo: "1 / (1 + u) \<le> t"
  proof -
    have "S / (1 + u) \<le> ?s" using hi u0 by (simp add: pos_divide_le_eq)
    then have "1 / (1 + u) * S \<le> ?s" by simp
    then show ?thesis unfolding t_def using Spos by (simp only: pos_le_divide_eq)
  qed
  have tb: "0 \<le> b / S" "b / S \<le> t" and ta: "0 \<le> a / S" "a / S \<le> t"
    using a0 b0 Spos by (simp_all add: t_def divide_right_mono)
  have t2: "t \<le> 2" using t_hi N0 by linarith
  have "b / S \<le> 2" "a / S \<le> 2" using tb(2) ta(2) t2 by linarith+
  from f64_round_small_nonneg [OF tb(1) this(1)] f64_round_small_nonneg [OF ta(1) this(2)]
  obtain r1 r2 where r1: "f64_round (b / S) = Fin r1"
    and e1: "\<bar>r1 - b / S\<bar> \<le> b / S * u + h"
    and r2: "f64_round (a / S) = Fin r2"
    and e2: "\<bar>r2 - a / S\<bar> \<le> a / S * u + h"
    unfolding u_def h_def by blast
  have R1: "ratio (Fin a) (Fin b) = Fin r1"
    using S r1 Spos by (simp add: ratio_def)
  have R2: "ratio (Fin b) (Fin a) = Fin r2"
    using S' r2 Spos by (simp add: ratio_def)
  define x where "x = r1 + r2"
  have tsum: "b / S + a / S = t" by (simp add: t_def add_divide_distrib add.commute)
  have xe: "\<bar>x - t\<bar> \<le> t * u + 2 * h"
  proof -
    have "\<bar>x - t\<bar> = \<bar>(r1 - b / S) + (r2 - a / S)\<bar>"
      using tsum by (simp add: x_def)
    also have "\<dots> \<le> \<bar>r1 - b / S\<bar> + \<bar>r2 - a / S\<bar>" by (rule abs_triangle_ineq)
    also have "\<dots> \<le> (b / S * u + h) + (a / S * u + h)" using e1 e2 by linarith
    also have "\<dots> = (b / S + a / S) * u + 2 * h" by (simp add: distrib_right)
    also have "\<dots> = t * u + 2 * h" by (simp only: tsum)
    finally show ?thesis .
  qed
  have x_hi: "x \<le> 1 + 5 / 2 * u"
  proof -
    have "x \<le> t * (1 + u) + 2 * h" using xe by (simp add: abs_le_iff algebra_simps)
    also have "t * (1 + u) \<le> 1 / (1 - u) * (1 + u)"
      using t_hi u0 by (intro mult_right_mono) simp_all
    finally show ?thesis using N1 by (simp add: mult.commute)
  qed
  have x_lo: "1 - 5 / 2 * u \<le> x"
  proof -
    have "1 / (1 + u) * (1 - u) \<le> t * (1 - u)"
      using t_lo u1 by (intro mult_right_mono) simp_all
    moreover have "t * (1 - u) - 2 * h \<le> x" using xe by (simp add: abs_le_iff algebra_simps)
    ultimately show ?thesis using N2 by (simp add: mult.commute)
  qed
  have xpos: "0 < x" using x_lo N4 zero_less_power_int [of "2::real" "- 1022"] by linarith
  have xn: "2 powi (- 1022) \<le> \<bar>x\<bar>" using x_lo N4 xpos by simp
  have "\<bar>x\<bar> \<le> 2" using x_hi N5 xpos by simp
  then obtain T where T: "f64_round x = Fin T"
    using f64_round_small [of x] by blast
  from f64_round_normal [OF T xn] have Te: "\<bar>T - x\<bar> \<le> x * u"
    using xpos by (simp add: u_def)
  define c where "c = (1 + 5 / 2 * u) * u"
  define w where "w = 5 / 2 * u"
  have "x * u \<le> c" unfolding c_def using x_hi u0 by (intro mult_right_mono) simp_all
  with Te have 1: "\<bar>T - x\<bar> \<le> c" by linarith
  have 2: "\<bar>x - 1\<bar> \<le> w" using x_hi x_lo unfolding w_def by linarith
  have "\<bar>T - 1\<bar> \<le> \<bar>T - x\<bar> + \<bar>x - 1\<bar>" by linarith
  with 1 2 have "\<bar>T - 1\<bar> \<le> c + w" by linarith
  also have "c + w \<le> 1 / 2 ^ 51" unfolding c_def w_def by (rule N3)
  finally have bound: "\<bar>T - 1\<bar> \<le> 1 / 2 ^ 51" .
  have sum: "f64_add (ratio (Fin a) (Fin b)) (ratio (Fin b) (Fin a)) = Fin T"
    using T by (simp add: R1 R2 x_def)
  have zero: "ratio (Fin a) (Fin 0) = Fin 0"
    using a a0 by (simp add: ratio_def is_f64_def f64_round_def)
  from sum bound zero show ?thesis by blast
qed

theorem ratio_sum_within_rounding_witness:
  "is_f64 1 \<and> is_f64 3 \<and> (0::real) < 1 \<and> (0::real) < 3
   \<and> f64_add (Fin 1) (Fin 3) \<noteq> PInf
   \<and> (\<exists>T. f64_add (ratio (Fin 1) (Fin 3)) (ratio (Fin 3) (Fin 1)) = Fin T
           \<and> \<bar>T - 1\<bar> \<le> 1 / 2 ^ 51)
   \<and> ratio (Fin 1) (Fin 0) = Fin 0"
proof -
  have a: "is_f64 1" and b: "is_f64 3"
    by (simp_all add: is_f64_def f64_round_one f64_round_three)
  have a0: "(0::real) < 1" and b0: "(0::real) < 3" by simp_all
  have fin: "f64_add (Fin 1) (Fin 3) \<noteq> PInf"
    by (simp add: f64_round_four)
  show ?thesis
    using a b a0 b0 fin ratio_sum_within_rounding [OF a b a0 b0 fin] by blast
qed

section \<open>The loops of the circle renderer\<close>

lemma item_Inl: "item a j i = Inl e \<Longrightarrow> e = IndexError"
  by (simp add: item_def split: if_splits)

lemma circles_loop_Inl:
  "circles_loop bins0 bins1 w i js acc = Inl e \<Longrightarrow> e = IndexError"
proof (induction js arbitrary: acc)
  case Nil
  then show ?case by simp
next
  case (Cons j js)
  then show ?case
    by (auto split: sum.splits option.splits dest: item_Inl)
qed

lemma circles_loop_total:
  assumes "\<forall>j\<in>set js. j < shape0 bins0 \<and> j < shape0 right"
    and "i < shape1 bins0" and "i < shape1 right"
  shows "\<exists>cs. circles_loop bins0 (Some right) w i js acc = Inr cs"
  using assms(1)
proof (induction js arbitrary: acc)
  case Nil
  then show ?case by simp
next
  case (Cons j js)
  then show ?case using assms(2,3) by (simp add: item_def)
qed

lemma circles_loop_Inr_bound:
  assumes "circles_loop bins0 (Some right) w i (j # js) acc = Inr cs"
  shows "i < shape1 right"
  using assms by (auto simp: item_def split: sum.splits if_splits)

lemma frame_loop_Inl:
  "frame_loop rnd bins0 bins1 cc points w idxs color k acc = Inl e \<Longrightarrow> e = IndexError"
proof (induction idxs arbitrary: color k acc)
  case Nil
  then show ?case by simp
next
  case (Cons i idxs)
  then show ?case
    by (auto simp: Let_def split: sum.splits if_splits prod.splits dest: circles_loop_Inl)
qed

lemma frame_loop_Inr_circles:
  "frame_loop rnd bins0 bins1 cc points w idxs color k acc = Inr frames \<Longrightarrow>
     \<forall>i\<in>set idxs. \<exists>cs. circles_loop bins0 bins1 w i [0..<shape0 bins0] [] = Inr cs"
proof (induction idxs arbitrary: color k acc)
  case Nil
  then show ?case by simp
next
  case (Cons i idxs)
  from Cons.prems obtain cs color' k' where
    c: "circles_loop bins0 bins1 w i [0..<shape0 bins0] [] = Inr cs"
    and r: "frame_loop rnd bins0 bins1 cc points w idxs color' k'
              (acc @ [\<lparr>background = color', rings = cs\<rparr>]) = Inr frames"
    by (auto simp: Let_def split: sum.splits if_splits prod.splits)
  from Cons.IH [OF r] c show ?case by simp
qed

lemma frame_loop_total:
  assumes "\<forall>i\<in>set idxs. \<exists>cs. circles_loop bins0 bins1 w i [0..<shape0 bins0] [] = Inr cs"
  shows "\<exists>frames. frame_loop rnd bins0 bins1 cc points w idxs color k acc = Inr frames
           \<and> length frames = length acc + length idxs"
  using assms
proof (induction idxs arbitrary: color k acc)
  case Nil
  then show ?case by simp
next
  case (Cons i idxs)
  from Cons.prems obtain cs where
    c: "circles_loop bins0 bins1 w i [0..<shape0 bins0] [] = Inr cs" by auto
  have rest: "\<forall>i\<in>set idxs. \<exists>cs. circles_loop bins0 bins1 w i [0..<shape0 bins0] [] = Inr cs"
    using Cons.prems by simp
  obtain color' k' where ck:
    "(if cc = 1
      then (if i \<in> set points then ((rnd k, rnd (k + 1), rnd (k + 2)), k + 3)
            else (decay color, k))
      else (color, k)) = (color', k')"
    by (rule prod.exhaust)
  from Cons.IH [OF rest, of color' k' "acc @ [\<lparr>background = color', rings = cs\<rparr>]"]
  obtain frames where
    "frame_loop rnd bins0 bins1 cc points w idxs color' k'
       (acc @ [\<lparr>background = color', rings = cs\<rparr>]) = Inr frames"
    "length frames = length (acc @ [\<lparr>background = color', rings = cs\<rparr>]) + length idxs"
    by blast
  then have "frame_loop rnd bins0 bins1 cc points w (i # idxs) color k acc = Inr frames
      \<and> length frames = length acc + length (i # idxs)"
    by (simp only: frame_loop.simps Let_def ck prod.case c sum.case) simp
  then show ?case by blast
qed

lemma find_points_Inl:
  assumes "find_points g threshold horizon = Inl e"
  shows "e = NameError \<or> e = ZeroDivisionError"
  using assms
  by (auto simp: find_points_def np_average_axis0_def find_points_loop_char
      split: option.splits if_splits)

lemma frame_loop_backgrounds:
  assumes "frame_loop rnd bins0 bins1 1 points w idxs color k acc = Inr frames"
  shows "\<exists>new. frames = acc @ new \<and> length new = length idxs
           \<and> (\<forall>t<length idxs. background (new ! t) =
                (if idxs ! t \<in> set points
                 then (rnd (k + 3 * length (filter (\<lambda>i. i \<in> set points) (take t idxs))),
                       rnd (k + 3 * length (filter (\<lambda>i. i \<in> set points) (take t idxs)) + 1),
                       rnd (k + 3 * length (filter (\<lambda>i. i \<in> set points) (take t idxs)) + 2))
                 else decay (if t = 0 then color else background (new ! (t - 1)))))"
  using assms
proof (induction idxs arbitrary: color k acc)
  case Nil
  then show ?case by simp
next
  case (Cons i idxs)
  define color' where "color' = (if i \<in> set points then (rnd k, rnd (k + 1), rnd (k + 2)) else decay color)"
  define k' where "k' = (if i \<in> set points then k + 3 else k)"
  from Cons.prems obtain cs where
    r: "frame_loop rnd bins0 bins1 1 points w idxs color' k'
          (acc @ [\<lparr>background = color', rings = cs\<rparr>]) = Inr frames"
    by (auto simp: Let_def color'_def k'_def split: sum.splits if_splits)
  let ?f = "\<lparr>background = color', rings = cs\<rparr>"
  let ?c = "\<lambda>k is t. k + 3 * length (filter (\<lambda>i. i \<in> set points) (take t is))"
  from Cons.IH [OF r] obtain new where
    n: "frames = (acc @ [?f]) @ new" "length new = length idxs"
    and b: "\<And>t. t < length idxs \<Longrightarrow> background (new ! t) =
                (if idxs ! t \<in> set points
                 then (rnd (?c k' idxs t), rnd (?c k' idxs t + 1), rnd (?c k' idxs t + 2))
                 else decay (if t = 0 then color' else background (new ! (t - 1))))"
    by blast
  have kk: "\<And>t. ?c k (i # idxs) (Suc t) = ?c k' idxs t"
    by (simp add: k'_def)
  have "\<forall>t<length (i # idxs). background ((?f # new) ! t) =
                (if (i # idxs) ! t \<in> set points
                 then (rnd (?c k (i # idxs) t), rnd (?c k (i # idxs) t + 1), rnd (?c k (i # idxs) t + 2))
                 else decay (if t = 0 then color else background ((?f # new) ! (t - 1))))"
  proof (intro allI impI)
    fix t assume t: "t < length (i # idxs)"
    show "background ((?f # new) ! t) =
                (if (i # idxs) ! t \<in> set points
                 then (rnd (?c k (i # idxs) t), rnd (?c k (i # idxs) t + 1), rnd (?c k (i # idxs) t + 2))
                 else decay (if t = 0 then color else background ((?f # new) ! (t - 1))))"
    proof (cases t)
      case 0
      then show ?thesis by (simp add: color'_def)
    next
      case (Suc t')
      then have t': "t' < length idxs" using t by simp
      have prev: "(if t' = 0 then color' else background (new ! (t' - 1)))
          = background ((?f # new) ! t')"
        by (cases t') simp_all
      show ?thesis
        unfolding Suc kk using b [OF t'] prev by simp
    qed
  qed
  with n show ?case by (intro exI [of _ "?f # new"]) simp
qed

section \<open>Properties of the circle renderer\<close>

text \<open>
  C8: for every pair of stereo bin arrays whose frame counts differ, \<open>circle_mode\<close> fails
  with a ValueError rather than silently truncating to the shorter array. As stated this
  fails: with one frame on the left and two on the right, \<open>circle_mode\<close> renders the one
  frame and ignores the second frame of the right channel.
\<close>

theorem frame_count_mismatch_counterexample:
  "shape1 one_frame \<noteq> shape1 two_frames
   \<and> circle_mode empty_module draws one_frame (Some two_frames) ''s.mp4'' 0 15
       = Inr [\<lparr>background = (1, 1, 1),
               rings = [\<lparr>center_x = Fin (1 / 2), center_y = Fin (1 / 2), radius = Fin (1 / 2),
                         edge_color = ''magenta'', line_width = 15\<rparr>]\<rparr>]"
  by (simp add: circle_mode_def item_def shape0_def ratio_one_one colors_def)

text \<open>
  C8 as amended: \<open>circle_mode\<close> does not compare the frame counts and never raises
  ValueError. It renders one frame per frame of \<open>bins0\<close>: when \<open>bins1\<close> has at least as
  many frames (and bands), every frame of \<open>bins0\<close> is rendered and the further frames of
  \<open>bins1\<close> are ignored; when \<open>bins1\<close> has fewer frames, reading its missing frame raises
  IndexError and no video is written.
\<close>

theorem circle_mode_no_frame_count_check:
  shows "circle_mode g rnd bins0 bins1 save_name color_changing circle_width \<noteq> Inl ValueError
       \<and> ((color_changing = 1 \<longrightarrow> (\<exists>points. find_points g (27 / 30) 7 = Inr points)) \<longrightarrow>
           (shape1 bins0 \<le> shape1 right \<and> shape0 bins0 \<le> shape0 right \<longrightarrow>
              (\<exists>frames. circle_mode g rnd bins0 (Some right) save_name color_changing circle_width
                          = Inr frames
                      \<and> length frames = shape1 bins0))
           \<and> (shape1 right < shape1 bins0 \<and> 0 < shape0 bins0 \<longrightarrow>
                circle_mode g rnd bins0 (Some right) save_name color_changing circle_width
                  = Inl IndexError))"
proof (cases "if color_changing = 1 then find_points g (27 / 30) 7 else Inr []")
  case (Inl e)
  then have cc: "color_changing = 1" and f: "find_points g (27 / 30) 7 = Inl e"
    by (auto split: if_splits)
  from find_points_Inl [OF f] have "e \<noteq> ValueError" by auto
  moreover have "circle_mode g rnd bins0 bins1 save_name color_changing circle_width = Inl e"
    by (simp only: circle_mode_def Inl sum.case)
  ultimately show ?thesis using cc f by simp
next
  case (Inr points)
  note p = Inr
  have cm: "\<And>b1. circle_mode g rnd bins0 b1 save_name color_changing circle_width
      = frame_loop rnd bins0 b1 color_changing points circle_width [0..<shape1 bins0] (1, 1, 1) 0 []"
    by (simp only: circle_mode_def p sum.case)
  have 1: "circle_mode g rnd bins0 bins1 save_name color_changing circle_width \<noteq> Inl ValueError"
    unfolding cm using frame_loop_Inl by fastforce
  have 2: "\<exists>frames. circle_mode g rnd bins0 (Some right) save_name color_changing circle_width
                        = Inr frames \<and> length frames = shape1 bins0"
    if le: "shape1 bins0 \<le> shape1 right \<and> shape0 bins0 \<le> shape0 right"
  proof -
    have "\<forall>i\<in>set [0..<shape1 bins0].
        \<exists>cs. circles_loop bins0 (Some right) circle_width i [0..<shape0 bins0] [] = Inr cs"
    proof
      fix i assume "i \<in> set [0..<shape1 bins0]"
      then have i: "i < shape1 bins0" "i < shape1 right" using le by simp_all
      have "\<forall>j\<in>set [0..<shape0 bins0]. j < shape0 bins0 \<and> j < shape0 right"
        using le by simp
      from circles_loop_total [OF this i]
      show "\<exists>cs. circles_loop bins0 (Some right) circle_width i [0..<shape0 bins0] [] = Inr cs" .
    qed
    from frame_loop_total [OF this, of rnd color_changing points "(1, 1, 1)" 0 "[]"]
    show ?thesis unfolding cm by simp
  qed
  have 3: "circle_mode g rnd bins0 (Some right) save_name color_changing circle_width = Inl IndexError"
    if lt: "shape1 right < shape1 bins0 \<and> 0 < shape0 bins0"
  proof (cases "circle_mode g rnd bins0 (Some right) save_name color_changing circle_width")
    case (Inl e)
    then show ?thesis unfolding cm using frame_loop_Inl by fastforce
  next
    case (Inr frames)
    have "shape1 right \<in> set [0..<shape1 bins0]" using lt by simp
    with frame_loop_Inr_circles [OF Inr [unfolded cm]] obtain cs where
      c: "circles_loop bins0 (Some right) circle_width (shape1 right) [0..<shape0 bins0] [] = Inr cs"
      by blast
    have "[0..<shape0 bins0] = 0 # [1..<shape0 bins0]"
      using lt by (simp add: upt_conv_Cons)
    with c have "shape1 right < shape1 right"
      using circles_loop_Inr_bound by metis
    then show ?thesis by simp
  qed
  from 1 2 3 show ?thesis by blast
qed

theorem circle_mode_no_frame_count_check_witness:
  "(0::int) \<noteq> 1
   \<and> shape1 one_frame \<le> shape1 two_frames
   \<and> shape0 one_frame \<le> shape0 two_frames
   \<and> (\<exists>frames. circle_mode empty_module draws one_frame (Some two_frames) ''s.mp4'' 0 15
          = Inr frames \<and> length frames = shape1 one_frame)
   \<and> shape1 one_frame < shape1 two_frames
   \<and> 0 < shape0 two_frames
   \<and> circle_mode empty_module draws two_frames (Some one_frame) ''s.mp4'' 0 15
       = Inl IndexError"
proof -
  let ?g = "empty_module"
  let ?rnd = "draws"
  let ?one = "one_frame"
  let ?two = "two_frames"
  have fp: "(0::int) = 1 \<longrightarrow> (\<exists>points. find_points ?g (27 / 30) 7 = Inr points)"
    by simp
  have le: "shape1 ?one \<le> shape1 ?two \<and> shape0 ?one \<le> shape0 ?two"
    by (simp add: shape0_def)
  have lt: "shape1 ?one < shape1 ?two \<and> 0 < shape0 ?two"
    by (simp add: shape0_def)
  have a: "\<exists>frames. circle_mode ?g ?rnd ?one (Some ?two) ''s.mp4'' 0 15 = Inr frames
      \<and> length frames = shape1 ?one"
    using circle_mode_no_frame_count_check [of ?g ?rnd ?one None "''s.mp4''" 0 15 ?two] fp le
    by blast
  have b: "circle_mode ?g ?rnd ?two (Some ?one) ''s.mp4'' 0 15 = Inl IndexError"
    using circle_mode_no_frame_count_check [of ?g ?rnd ?two None "''s.mp4''" 0 15 ?one] fp lt
    by blast
  from a b le lt show ?thesis by simp
qed

lemma decay_case:
  "decay c = (case c of (red, green, blue) \<Rightarrow> (red * (9 / 10), green * (9 / 10), blue * (9 / 10)))"
  by (cases c) simp

text \<open>
  C10: in \<open>circle_mode\<close> with colour changing enabled, the background colour of frame \<open>i\<close>
  is a fresh random RGB triple when \<open>i\<close> is an emphasis point, and otherwise the colour of
  the previous frame with every component multiplied by \<open>9 / 10\<close>; before the first frame
  the colour is \<open>(1, 1, 1)\<close>. The random triple is three successive values of
  \<open>random.random()\<close>, the next three that have not been drawn. The components are real
  numbers here: the rounding of the products is not modelled.
\<close>

theorem circle_mode_background_colors:
  assumes fp: "find_points g (27 / 30) 7 = Inr points"
    and cm: "circle_mode g rnd bins0 bins1 save_name 1 circle_width = Inr frames"
  shows "length frames = shape1 bins0
       \<and> (\<forall>i<shape1 bins0. background (frames ! i) =
            (if i \<in> set points
             then (rnd (3 * card {p \<in> set points. p < i}),
                   rnd (3 * card {p \<in> set points. p < i} + 1),
                   rnd (3 * card {p \<in> set points. p < i} + 2))
             else (case (if i = 0 then (1, 1, 1) else background (frames ! (i - 1))) of
                     (red, green, blue) \<Rightarrow>
                       (red * (9 / 10), green * (9 / 10), blue * (9 / 10)))))"
proof -
  let ?n = "shape1 bins0"
  have "frame_loop rnd bins0 bins1 1 points circle_width [0..<?n] (1, 1, 1) 0 [] = Inr frames"
    using cm fp by (simp add: circle_mode_def)
  from frame_loop_backgrounds [OF this] have len: "length frames = ?n"
    and b: "\<And>t. t < ?n \<Longrightarrow> background (frames ! t) =
                (if [0..<?n] ! t \<in> set points
                 then (rnd (0 + 3 * length (filter (\<lambda>i. i \<in> set points) (take t [0..<?n]))),
                       rnd (0 + 3 * length (filter (\<lambda>i. i \<in> set points) (take t [0..<?n])) + 1),
                       rnd (0 + 3 * length (filter (\<lambda>i. i \<in> set points) (take t [0..<?n])) + 2))
                 else decay (if t = 0 then (1, 1, 1) else background (frames ! (t - 1))))"
    by auto
  have cnt: "\<And>t. t < ?n \<Longrightarrow>
      length (filter (\<lambda>i. i \<in> set points) (take t [0..<?n])) = card {p \<in> set points. p < t}"
  proof -
    fix t assume "t < ?n"
    then have "take t [0..<?n] = [0..<t]" by simp
    moreover have "{j \<in> {0..<t}. j \<in> set points} = {p \<in> set points. p < t}" by auto
    ultimately show "length (filter (\<lambda>i. i \<in> set points) (take t [0..<?n])) = card {p \<in> set points. p < t}"
      by (simp only: length_filter_upt_card)
  qed
  have "\<forall>i<?n. background (frames ! i) =
            (if i \<in> set points
             then (rnd (3 * card {p \<in> set points. p < i}),
                   rnd (3 * card {p \<in> set points. p < i} + 1),
                   rnd (3 * card {p \<in> set points. p < i} + 2))
             else decay (if i = 0 then (1, 1, 1) else background (frames ! (i - 1))))"
  proof (intro allI impI)
    fix i assume i: "i < ?n"
    show "background (frames ! i) =
            (if i \<in> set points
             then (rnd (3 * card {p \<in> set points. p < i}),
                   rnd (3 * card {p \<in> set points. p < i} + 1),
                   rnd (3 * card {p \<in> set points. p < i} + 2))
             else decay (if i = 0 then (1, 1, 1) else background (frames ! (i - 1))))"
      using b [OF i] cnt [OF i] i by simp
  qed
  then have "\<forall>i<?n. background (frames ! i) =
            (if i \<in> set points
             then (rnd (3 * card {p \<in> set points. p < i}),
                   rnd (3 * card {p \<in> set points. p < i} + 1),
                   rnd (3 * card {p \<in> set points. p < i} + 2))
             else (case (if i = 0 then (1, 1, 1) else background (frames ! (i - 1))) of
                     (red, green, blue) \<Rightarrow>
                       (red * (9 / 10), green * (9 / 10), blue * (9 / 10))))"
    by (simp only: decay_case)
  with len show ?thesis by blast
qed

theorem circle_mode_background_colors_witness:
  "find_points (module_with dip4) (27 / 30) 7 = Inr [1]
   \<and> (\<exists>frames. circle_mode (module_with dip4) draws dip4 None ''s.mp4'' 1 15 = Inr frames
         \<and> length frames = 4
         \<and> background (frames ! 0) = (9 / 10, 9 / 10, 9 / 10)
         \<and> background (frames ! 1) = (1 / 2, 1 / 3, 1 / 4)
         \<and> background (frames ! 2) = (9 / 20, 3 / 10, 9 / 40)
         \<and> background (frames ! 3) = (81 / 200, 27 / 100, 81 / 400))"
proof -
  let ?g = "(module_with dip4)"
  let ?rnd = "draws"
  let ?b = "dip4"
  have fp: "find_points ?g (27 / 30) 7 = Inr [1]"
    by (simp add: find_points_eval)
  have "\<exists>frames. circle_mode ?g ?rnd ?b None ''s.mp4'' 1 15 = Inr frames"
    using fp by (simp add: circle_mode_def item_def shape0_def upt_rec)
  then obtain frames where cm: "circle_mode ?g ?rnd ?b None ''s.mp4'' 1 15 = Inr frames"
    by blast
  from circle_mode_background_colors [OF fp cm]
  have len: "length frames = 4"
    and b: "\<And>i. i < 4 \<Longrightarrow> background (frames ! i) =
            (if i \<in> set [1::nat]
             then (?rnd (3 * card {p \<in> set [1::nat]. p < i}),
                   ?rnd (3 * card {p \<in> set [1::nat]. p < i} + 1),
                   ?rnd (3 * card {p \<in> set [1::nat]. p < i} + 2))
             else (case (if i = 0 then (1, 1, 1) else background (frames ! (i - 1))) of
                     (red, green, blue) \<Rightarrow>
                       (red * (9 / 10), green * (9 / 10), blue * (9 / 10))))"
    by simp_all
  have b0: "background (frames ! 0) = (9 / 10, 9 / 10, 9 / 10)"
    using b [of 0] by simp
  have b1: "background (frames ! 1) = (1 / 2, 1 / 3, 1 / 4)"
    using b [of 1] by simp
  have b2: "background (frames ! 2) = (9 / 20, 3 / 10, 9 / 40)"
    using b [of 2] b1 by simp
  have b3: "background (frames ! 3) = (81 / 200, 27 / 100, 81 / 400)"
    using b [of 3] b2 by simp
  show ?thesis using fp cm len b0 b1 b2 b3 by blast
qed

end
